theory Spec2Isabelle
  imports Main "HOL-Library.Word"
begin

section \<open>The mesh engine of mpm: data model\<close>

text \<open>
  The development embeds the parts of \<^verbatim>\<open>include/mesh.tcc\<close> and
  \<^verbatim>\<open>include/mesh.h\<close> that the properties below are about. C++ objects held through
  \<^verbatim>\<open>std::shared_ptr\<close> live in a store: a pointer is an address, the container and the
  id map of one entity kind hold the same addresses, and a mutation through one of them
  is seen through the other. A shared pointer never dangles, so the stores are total.
\<close>

type_synonym Index = "64 word"
  \<comment> \<open>\<^verbatim>\<open>mpm::Index\<close>, a 64-bit unsigned integer\<close>

type_synonym ptr = nat
  \<comment> \<open>the address a \<^verbatim>\<open>std::shared_ptr\<close> holds\<close>

definition max_Index :: Index where
  "max_Index = - 1"
  \<comment> \<open>\<^verbatim>\<open>std::numeric_limits<mpm::Index>::max()\<close>, the sentinel of an unlocated particle\<close>

datatype exn =
    RuntimeError string  \<comment> \<open>\<^verbatim>\<open>std::runtime_error(what)\<close>\<close>
  | OutOfRange           \<comment> \<open>\<^verbatim>\<open>std::out_of_range\<close>, thrown by \<^verbatim>\<open>at()\<close> of the standard maps\<close>
  | LookupMiss           \<comment> \<open>\<^verbatim>\<open>Map::operator[]\<close> on an id the map does not hold\<close>

fun what :: "exn \<Rightarrow> string" where
  "what (RuntimeError s) = s"
| "what OutOfRange = ''out_of_range''"
| "what LookupMiss = ''lookup miss''"


record 'p Cell =
  c_id :: Index                       \<comment> \<open>\<^verbatim>\<open>id()\<close>\<close>
  c_rank :: nat                       \<comment> \<open>\<^verbatim>\<open>rank()\<close>, the owning MPI rank\<close>
  c_nodes :: "ptr list"               \<comment> \<open>the node pointers of the cell\<close>
  c_neighbours :: "Index list"        \<comment> \<open>\<^verbatim>\<open>neighbours()\<close>, in iteration order\<close>
  c_particles :: "Index list"         \<comment> \<open>\<^verbatim>\<open>particles()\<close>, ids of the particles in the cell\<close>
  c_is_point_in_cell :: "'p \<Rightarrow> bool"  \<comment> \<open>\<^verbatim>\<open>is_point_in_cell(x, &xi)\<close>: the result\<close>
  c_local_xi :: "'p \<Rightarrow> 'p"            \<comment> \<open>\<^verbatim>\<open>is_point_in_cell(x, &xi)\<close>: the \<^verbatim>\<open>xi\<close> written\<close>

record 'p Particle =
  p_id :: Index                       \<comment> \<open>\<^verbatim>\<open>id()\<close>\<close>
  p_coordinates :: 'p                 \<comment> \<open>\<^verbatim>\<open>coordinates()\<close>\<close>
  p_xi :: 'p                          \<comment> \<open>reference coordinates in the current cell\<close>
  p_cell_id :: Index                  \<comment> \<open>\<^verbatim>\<open>cell_id()\<close>, \<open>max_Index\<close> when unlocated\<close>
  p_cell_ptr :: "ptr option"          \<comment> \<open>\<^verbatim>\<open>cell_ptr()\<close>, \<open>None\<close> for \<^verbatim>\<open>nullptr\<close>\<close>

record Node =
  n_id :: Index                       \<comment> \<open>\<^verbatim>\<open>id()\<close>\<close>
  n_mpi_ranks :: "nat set"            \<comment> \<open>\<^verbatim>\<open>mpi_ranks()\<close>\<close>
  n_ghost_id :: "32 word"             \<comment> \<open>\<^verbatim>\<open>ghost_id()\<close>\<close>

record 'd VelocityConstraint =
  vc_setid :: "32 word"               \<comment> \<open>\<^verbatim>\<open>setid()\<close>, an \<^verbatim>\<open>int\<close>\<close>
  vc_dir :: "32 word"                 \<comment> \<open>\<^verbatim>\<open>dir()\<close>, an \<^verbatim>\<open>unsigned\<close>\<close>
  vc_velocity :: 'd                   \<comment> \<open>\<^verbatim>\<open>velocity()\<close>\<close>

record 'd Traction =
  tr_setid :: "32 word"
  tr_mfunction :: "ptr option"
  tr_dir :: "32 word"
  tr_traction :: 'd

text \<open>
  The members of \<^verbatim>\<open>mpm::Mesh<Tdim>\<close> (mesh.h, lines 443 to 502) that the embedded
  operations read or write (named without the trailing underscore), and the three
  object stores. \<^verbatim>\<open>int\<close> and \<^verbatim>\<open>unsigned\<close>
  are both \<open>32 word\<close>: the set id \<open>-1\<close> and the key it converts to are the same word.
\<close>

record ('p, 'd) Mesh =
  particles :: "ptr list"                          \<comment> \<open>\<^verbatim>\<open>Container<ParticleBase>\<close>\<close>
  particles_cell_ids :: "Index \<rightharpoonup> Index"           \<comment> \<open>\<^verbatim>\<open>std::map<Index, Index>\<close>\<close>
  particle_sets :: "32 word \<rightharpoonup> Index list"        \<comment> \<open>\<^verbatim>\<open>robin_map<unsigned, concurrent_vector<Index>>\<close>\<close>
  map_particles :: "(Index \<times> ptr) list"             \<comment> \<open>\<^verbatim>\<open>Map<ParticleBase>\<close>\<close>
  nodes :: "ptr list"                              \<comment> \<open>\<^verbatim>\<open>Container<NodeBase>\<close>\<close>
  domain_shared_nodes :: "ptr list"                \<comment> \<open>\<^verbatim>\<open>Container<NodeBase>\<close>\<close>
  map_nodes :: "(Index \<times> ptr) list"                 \<comment> \<open>\<^verbatim>\<open>Map<NodeBase>\<close>\<close>
  map_cells :: "(Index \<times> ptr) list"                 \<comment> \<open>\<^verbatim>\<open>Map<Cell>\<close>\<close>
  cells :: "ptr list"                              \<comment> \<open>\<^verbatim>\<open>Container<Cell>\<close>\<close>
  particle_tractions :: "'d Traction list"
  particle_velocity_constraints :: "'d VelocityConstraint list"
  console :: "string list"                         \<comment> \<open>the messages given to \<^verbatim>\<open>console_->error\<close>\<close>
  nhalo_nodes :: "32 word"
  ncomms :: "32 word"
  particle_heap :: "ptr \<Rightarrow> 'p Particle"
  node_heap :: "ptr \<Rightarrow> Node"
  cell_heap :: "ptr \<Rightarrow> 'p Cell"

text \<open>
  An operation returns what the C++ function returns, or the exception that leaves it,
  together with the mesh as it is at that moment.
\<close>

type_synonym ('a, 'p, 'd) outcome = "(exn + 'a) \<times> ('p, 'd) Mesh"

definition catch_exception :: "(bool, 'p, 'd) outcome \<Rightarrow> (bool, 'p, 'd) outcome" where
  "catch_exception r =
     (case r of
        (Inl e, m) \<Rightarrow> (Inr False, m\<lparr>console := console m @ [what e]\<rparr>)
      | (Inr b, m) \<Rightarrow> (Inr b, m))"
  \<comment> \<open>\<^verbatim>\<open>catch (std::exception& exception) { console_->error(...); status = false; }\<close>\<close>

section \<open>Containers and id maps\<close>

text \<open>
  Modelled from the spec: \<^verbatim>\<open>Container::add\<close> and \<^verbatim>\<open>Container::remove\<close>
  (\<^verbatim>\<open>container.h\<close> is not among the sources). Section 4.1: \<^verbatim>\<open>add(entity, check_duplicates)\<close>
  fails if \<^verbatim>\<open>check_duplicates\<close> is true and an entity with the same id already exists;
  \<^verbatim>\<open>remove(entity)\<close> fails (returns false) if the entity is absent; the container
  preserves insertion order. The first argument reads the id of the object at an address.
\<close>

definition Container_add :: "(ptr \<Rightarrow> Index) \<Rightarrow> ptr list \<Rightarrow> ptr \<Rightarrow> bool \<Rightarrow> bool \<times> ptr list" where
  "Container_add idf xs p check_duplicates =
     (if check_duplicates \<and> idf p \<in> idf ` set xs then (False, xs) else (True, xs @ [p]))"

definition Container_remove :: "ptr list \<Rightarrow> ptr \<Rightarrow> bool \<times> ptr list" where
  "Container_remove xs p = (if p \<in> set xs then (True, removeAll p xs) else (False, xs))"

text \<open>
  Modelled from the spec: \<^verbatim>\<open>Map::insert\<close>, \<^verbatim>\<open>Map::remove\<close>, \<^verbatim>\<open>Map::find\<close> and
  \<^verbatim>\<open>Map::operator[]\<close> (\<^verbatim>\<open>map.h\<close> is not among the sources). Sections 2 and 4.1: an
  id to entity associative structure for lookup by id. Both \<^verbatim>\<open>insert\<close> and \<^verbatim>\<open>remove\<close>
  return a status in mesh.tcc (lines 65 and 833): \<^verbatim>\<open>insert\<close> on an id the map holds and
  \<^verbatim>\<open>remove\<close> of an id it does not hold return false and change nothing. Section 7 (b):
  an id that is not present where one is required is a lookup-miss failure, here the
  exception \<open>LookupMiss\<close>. The list keeps the entries in the order the map iterates.
\<close>

definition Map_insert :: "(Index \<times> ptr) list \<Rightarrow> Index \<Rightarrow> ptr \<Rightarrow> bool \<times> (Index \<times> ptr) list" where
  "Map_insert mp k p = (if k \<in> fst ` set mp then (False, mp) else (True, mp @ [(k, p)]))"

definition Map_remove :: "(Index \<times> ptr) list \<Rightarrow> Index \<Rightarrow> bool \<times> (Index \<times> ptr) list" where
  "Map_remove mp k =
     (if k \<in> fst ` set mp then (True, filter (\<lambda>e. fst e \<noteq> k) mp) else (False, mp))"

definition Map_find :: "(Index \<times> ptr) list \<Rightarrow> Index \<Rightarrow> ptr option" where
  "Map_find mp k = map_of mp k"

definition Map_at :: "(Index \<times> ptr) list \<Rightarrow> Index \<Rightarrow> exn + ptr" where
  "Map_at mp k = (case map_of mp k of None \<Rightarrow> Inl LookupMiss | Some p \<Rightarrow> Inr p)"

definition std_map_insert :: "('k \<rightharpoonup> 'v) \<Rightarrow> 'k \<Rightarrow> 'v \<Rightarrow> ('k \<rightharpoonup> 'v)" where
  "std_map_insert mp k v = (if k \<in> dom mp then mp else mp(k \<mapsto> v))"
  \<comment> \<open>\<^verbatim>\<open>std::map::insert\<close>: an existing key keeps its value\<close>

section \<open>Nodes and cells\<close>

text \<open>\<^verbatim>\<open>add_node\<close>, \<^verbatim>\<open>remove_node\<close> (mesh.tcc, lines 49 to 66).\<close>

definition add_node :: "('p, 'd) Mesh \<Rightarrow> ptr \<Rightarrow> bool \<Rightarrow> (bool, 'p, 'd) outcome" where
  "add_node m node check_duplicates =
     (let (insertion_status, ns) =
            Container_add (\<lambda>a. n_id (node_heap m a)) (nodes m) node check_duplicates
      in if insertion_status
         then (Inr insertion_status,
               m\<lparr>nodes := ns,
                 map_nodes := snd (Map_insert (map_nodes m) (n_id (node_heap m node)) node)\<rparr>)
         else (Inr insertion_status, m\<lparr>nodes := ns\<rparr>))"

definition remove_node :: "('p, 'd) Mesh \<Rightarrow> ptr \<Rightarrow> (bool, 'p, 'd) outcome" where
  "remove_node m node =
     (let nid = n_id (node_heap m node);
          (removed, ns) = Container_remove (nodes m) node
      in if removed
         then (Inr (fst (Map_remove (map_nodes m) nid)),
               m\<lparr>nodes := ns, map_nodes := snd (Map_remove (map_nodes m) nid)\<rparr>)
         else (Inr False, m\<lparr>nodes := ns\<rparr>))"

text \<open>\<^verbatim>\<open>add_cell\<close>, \<^verbatim>\<open>remove_cell\<close> of the mesh (mesh.tcc, lines 257 to 274).\<close>

definition add_cell :: "('p, 'd) Mesh \<Rightarrow> ptr \<Rightarrow> bool \<Rightarrow> (bool, 'p, 'd) outcome" where
  "add_cell m cell check_duplicates =
     (let (insertion_status, cs) =
            Container_add (\<lambda>a. c_id (cell_heap m a)) (cells m) cell check_duplicates
      in if insertion_status
         then (Inr insertion_status,
               m\<lparr>cells := cs,
                 map_cells := snd (Map_insert (map_cells m) (c_id (cell_heap m cell)) cell)\<rparr>)
         else (Inr insertion_status, m\<lparr>cells := cs\<rparr>))"

definition remove_cell :: "('p, 'd) Mesh \<Rightarrow> ptr \<Rightarrow> (bool, 'p, 'd) outcome" where
  "remove_cell m cell =
     (let cid = c_id (cell_heap m cell);
          (removed, cs) = Container_remove (cells m) cell
      in if removed
         then (Inr (fst (Map_remove (map_cells m) cid)),
               m\<lparr>cells := cs, map_cells := snd (Map_remove (map_cells m) cid)\<rparr>)
         else (Inr False, m\<lparr>cells := cs\<rparr>))"

section \<open>Particles\<close>

text \<open>
  Modelled from the spec: the methods of \<^verbatim>\<open>ParticleBase\<close> that the mesh calls
  (\<^verbatim>\<open>particle.h\<close> is not among the sources). Section 3: a particle has an owning cell id
  (the sentinel when unlocated) and reference coordinates within its current cell.
  Section 4.2: \<^verbatim>\<open>compute_reference_location\<close> tests whether the coordinates still map
  into the particle's current cell, and a found cell is assigned together with the
  reference coordinates. \<^verbatim>\<open>remove_cell\<close> removes the associated cell of the particle
  (the comment at mesh.tcc, line 493). The lists of particle ids that cells keep are
  maintained by \<^verbatim>\<open>Cell\<close> and are not touched here.
\<close>

definition Particle_update ::
  "('p, 'd) Mesh \<Rightarrow> ptr \<Rightarrow> ('p Particle \<Rightarrow> 'p Particle) \<Rightarrow> ('p, 'd) Mesh" where
  "Particle_update m a f = m\<lparr>particle_heap := (particle_heap m)(a := f (particle_heap m a))\<rparr>"

definition assign_cell :: "('p, 'd) Mesh \<Rightarrow> ptr \<Rightarrow> ptr \<Rightarrow> ('p, 'd) Mesh" where
  "assign_cell m particle cellptr =
     Particle_update m particle
       (\<lambda>p. p\<lparr>p_cell_id := c_id (cell_heap m cellptr), p_cell_ptr := Some cellptr\<rparr>)"

definition assign_cell_xi :: "('p, 'd) Mesh \<Rightarrow> ptr \<Rightarrow> ptr \<Rightarrow> 'p \<Rightarrow> ('p, 'd) Mesh" where
  "assign_cell_xi m particle cellptr xi =
     Particle_update m particle
       (\<lambda>p. p\<lparr>p_xi := xi, p_cell_id := c_id (cell_heap m cellptr), p_cell_ptr := Some cellptr\<rparr>)"

definition compute_reference_location :: "('p, 'd) Mesh \<Rightarrow> ptr \<Rightarrow> bool \<times> ('p, 'd) Mesh" where
  "compute_reference_location m particle =
     (case p_cell_ptr (particle_heap m particle) of
        None \<Rightarrow> (False, m)
      | Some c \<Rightarrow>
          if c_is_point_in_cell (cell_heap m c) (p_coordinates (particle_heap m particle))
          then (True, Particle_update m particle
                  (\<lambda>p. p\<lparr>p_xi := c_local_xi (cell_heap m c) (p_coordinates p)\<rparr>))
          else (False, m))"

definition Particle_remove_cell :: "('p, 'd) Mesh \<Rightarrow> ptr \<Rightarrow> ('p, 'd) Mesh" where
  "Particle_remove_cell m particle =
     Particle_update m particle (\<lambda>p. p\<lparr>p_cell_id := max_Index, p_cell_ptr := None\<rparr>)"

text \<open>
  \<^verbatim>\<open>locate_particle_cells\<close> (mesh.tcc, lines 743 to 780). The loop over the neighbours
  looks every neighbour id up in \<^verbatim>\<open>map_cells_\<close> and stops at the first cell that
  contains the point. The scan over all cells runs under \<^verbatim>\<open>tbb::parallel_for_each\<close>
  with a shared flag; it is embedded as the sequential scan in container order, which
  assigns the first containing cell.
\<close>

fun find_neighbour_cell :: "('p, 'd) Mesh \<Rightarrow> 'p \<Rightarrow> Index list \<Rightarrow> exn + ptr option" where
  "find_neighbour_cell m x [] = Inr None"
| "find_neighbour_cell m x (neighbour # ns) =
     (case Map_at (map_cells m) neighbour of
        Inl e \<Rightarrow> Inl e
      | Inr c \<Rightarrow>
          if c_is_point_in_cell (cell_heap m c) x then Inr (Some c)
          else find_neighbour_cell m x ns)"

definition scan_all_cells :: "('p, 'd) Mesh \<Rightarrow> ptr \<Rightarrow> (bool, 'p, 'd) outcome" where
  "scan_all_cells m particle =
     (let x = p_coordinates (particle_heap m particle) in
      case find (\<lambda>c. c_is_point_in_cell (cell_heap m c) x) (cells m) of
        None \<Rightarrow> (Inr False, m)
      | Some c \<Rightarrow> (Inr True, assign_cell_xi m particle c (c_local_xi (cell_heap m c) x)))"

definition locate_particle_cells :: "('p, 'd) Mesh \<Rightarrow> ptr \<Rightarrow> (bool, 'p, 'd) outcome" where
  "locate_particle_cells m particle =
     (if p_cell_id (particle_heap m particle) \<noteq> max_Index then
        (case (if p_cell_ptr (particle_heap m particle) = None
               then (case Map_at (map_cells m) (p_cell_id (particle_heap m particle)) of
                       Inl e \<Rightarrow> Inl e
                     | Inr c \<Rightarrow> Inr (assign_cell m particle c))
               else Inr m) of
           Inl e \<Rightarrow> (Inl e, m)
         | Inr m1 \<Rightarrow>
             (case compute_reference_location m1 particle of
                (True, m2) \<Rightarrow> (Inr True, m2)
              | (False, m2) \<Rightarrow>
                  (case Map_at (map_cells m2) (p_cell_id (particle_heap m2 particle)) of
                     Inl e \<Rightarrow> (Inl e, m2)
                   | Inr c0 \<Rightarrow>
                       (let x = p_coordinates (particle_heap m2 particle) in
                        case find_neighbour_cell m2 x (c_neighbours (cell_heap m2 c0)) of
                          Inl e \<Rightarrow> (Inl e, m2)
                        | Inr (Some c) \<Rightarrow>
                            (Inr True,
                             assign_cell_xi m2 particle c (c_local_xi (cell_heap m2 c) x))
                        | Inr None \<Rightarrow> scan_all_cells m2 particle))))
      else scan_all_cells m particle)"

text \<open>\<^verbatim>\<open>locate_particles_mesh\<close> (mesh.tcc, lines 724 to 740).\<close>

fun locate_particles_loop ::
  "('p, 'd) Mesh \<Rightarrow> ptr list \<Rightarrow> ptr list \<Rightarrow> (ptr list, 'p, 'd) outcome" where
  "locate_particles_loop m unlocated [] = (Inr unlocated, m)"
| "locate_particles_loop m unlocated (particle # ps) =
     (case locate_particle_cells m particle of
        (Inl e, m1) \<Rightarrow> (Inl e, m1)
      | (Inr True, m1) \<Rightarrow> locate_particles_loop m1 unlocated ps
      | (Inr False, m1) \<Rightarrow> locate_particles_loop m1 (unlocated @ [particle]) ps)"

definition locate_particles_mesh :: "('p, 'd) Mesh \<Rightarrow> (ptr list, 'p, 'd) outcome" where
  "locate_particles_mesh m = locate_particles_loop m [] (particles m)"

text \<open>
  \<^verbatim>\<open>add_particle\<close> (mesh.tcc, lines 458 to 486). Both branches run the same three
  insertions; the insertion into \<^verbatim>\<open>particles_cell_ids_\<close> and into the id map does not
  depend on the status of the container.
\<close>

definition add_particle_insert :: "('p, 'd) Mesh \<Rightarrow> ptr \<Rightarrow> bool \<Rightarrow> (bool, 'p, 'd) outcome" where
  "add_particle_insert m particle checks =
     (let p = particle_heap m particle;
          (status, ps) = Container_add (\<lambda>a. p_id (particle_heap m a)) (particles m) particle checks;
          m1 = m\<lparr>particles := ps,
                 particles_cell_ids := std_map_insert (particles_cell_ids m) (p_id p) (p_cell_id p),
                 map_particles := snd (Map_insert (map_particles m) (p_id p) particle)\<rparr>
      in if \<not> status then (Inl (RuntimeError ''Particle addition failed''), m1)
         else (Inr status, m1))"

definition add_particle :: "('p, 'd) Mesh \<Rightarrow> ptr \<Rightarrow> bool \<Rightarrow> (bool, 'p, 'd) outcome" where
  "add_particle m particle checks =
     catch_exception
       (if checks then
          (case locate_particle_cells m particle of
             (Inl e, m1) \<Rightarrow> (Inl e, m1)
           | (Inr True, m1) \<Rightarrow> add_particle_insert m1 particle checks
           | (Inr False, m1) \<Rightarrow> (Inl (RuntimeError ''Particle not found in mesh''), m1))
        else add_particle_insert m particle checks)"

text \<open>\<^verbatim>\<open>remove_particle\<close> and \<^verbatim>\<open>remove_particle_by_id\<close> (mesh.tcc, lines 488 to 506).\<close>

definition remove_particle :: "('p, 'd) Mesh \<Rightarrow> ptr \<Rightarrow> (bool, 'p, 'd) outcome" where
  "remove_particle m particle =
     (let pid = p_id (particle_heap m particle) in
      case Map_at (map_particles m) pid of
        Inl e \<Rightarrow> (Inl e, m)
      | Inr q \<Rightarrow>
          (let m1 = Particle_remove_cell m q;
               (removed, ps) = Container_remove (particles m1) particle
           in if removed
              then (Inr (fst (Map_remove (map_particles m1) pid)),
                    m1\<lparr>particles := ps, map_particles := snd (Map_remove (map_particles m1) pid)\<rparr>)
              else (Inr False, m1\<lparr>particles := ps\<rparr>)))"

definition remove_particle_by_id :: "('p, 'd) Mesh \<Rightarrow> Index \<Rightarrow> (bool, 'p, 'd) outcome" where
  "remove_particle_by_id m pid =
     (case Map_at (map_particles m) pid of
        Inl e \<Rightarrow> (Inl e, m)
      | Inr q \<Rightarrow>
          (let m1 = Particle_remove_cell m q;
               (result, ps) = Container_remove (particles m1) q
           in if result
              then (Inr (fst (Map_remove (map_particles m1) pid)),
                    m1\<lparr>particles := ps, map_particles := snd (Map_remove (map_particles m1) pid)\<rparr>)
              else (Inr False, m1\<lparr>particles := ps\<rparr>)))"

text \<open>
  \<^verbatim>\<open>remove_particles\<close> (mesh.tcc, lines 508 to 531): every id is looked up, its
  particle loses its cell and the id leaves the map; then the container is cleared and
  filled again from the map, without duplicate checking.
\<close>

fun remove_ids :: "('p, 'd) Mesh \<Rightarrow> Index list \<Rightarrow> (unit, 'p, 'd) outcome" where
  "remove_ids m [] = (Inr (), m)"
| "remove_ids m (pid # ids) =
     (case Map_at (map_particles m) pid of
        Inl e \<Rightarrow> (Inl e, m)
      | Inr q \<Rightarrow>
          remove_ids
            ((Particle_remove_cell m q)\<lparr>map_particles := snd (Map_remove (map_particles m) pid)\<rparr>)
            ids)"

definition refill_particles :: "('p, 'd) Mesh \<Rightarrow> ('p, 'd) Mesh" where
  "refill_particles m =
     m\<lparr>particles :=
         foldl (\<lambda>xs e. snd (Container_add (\<lambda>a. p_id (particle_heap m a)) xs (snd e) False))
           [] (map_particles m)\<rparr>"

definition remove_particles :: "('p, 'd) Mesh \<Rightarrow> Index list \<Rightarrow> (unit, 'p, 'd) outcome" where
  "remove_particles m pids =
     (if pids \<noteq> [] then
        (case remove_ids m pids of
           (Inl e, m1) \<Rightarrow> (Inl e, m1)
         | (Inr u, m1) \<Rightarrow> (Inr (), refill_particles m1))
      else (Inr (), m))"

text \<open>
  \<^verbatim>\<open>remove_all_nonrank_particles\<close> (mesh.tcc, lines 533 to 565); \<open>mpi_rank\<close> is the
  rank \<^verbatim>\<open>MPI_Comm_rank\<close> gives, 0 without MPI. \<^verbatim>\<open>Cell::clear_particle_ids\<close> empties
  the list of particle ids of the cell.
\<close>

fun remove_nonrank_cells :: "nat \<Rightarrow> ('p, 'd) Mesh \<Rightarrow> ptr list \<Rightarrow> (unit, 'p, 'd) outcome" where
  "remove_nonrank_cells mpi_rank m [] = (Inr (), m)"
| "remove_nonrank_cells mpi_rank m (c # cs) =
     (if c_particles (cell_heap m c) \<noteq> [] \<and> c_rank (cell_heap m c) \<noteq> mpi_rank then
        (case remove_ids m (c_particles (cell_heap m c)) of
           (Inl e, m1) \<Rightarrow> (Inl e, m1)
         | (Inr u, m1) \<Rightarrow>
             remove_nonrank_cells mpi_rank
               (m1\<lparr>cell_heap := (cell_heap m1)(c := (cell_heap m1 c)\<lparr>c_particles := []\<rparr>)\<rparr>) cs)
      else remove_nonrank_cells mpi_rank m cs)"

definition remove_all_nonrank_particles :: "nat \<Rightarrow> ('p, 'd) Mesh \<Rightarrow> (unit, 'p, 'd) outcome" where
  "remove_all_nonrank_particles mpi_rank m =
     (case remove_nonrank_cells mpi_rank m (cells m) of
        (Inl e, m1) \<Rightarrow> (Inl e, m1)
      | (Inr u, m1) \<Rightarrow> (Inr (), refill_particles m1))"

definition particles_cell_ids_ptr :: "('p, 'd) Mesh \<Rightarrow> (Index \<rightharpoonup> Index)" where
  "particles_cell_ids_ptr m = particles_cell_ids m"
  \<comment> \<open>\<^verbatim>\<open>particles_cell_ids()\<close> (mesh.tcc, lines 1452 to 1456) returns the address of the member\<close>

section \<open>Iteration over particles\<close>

text \<open>
  \<^verbatim>\<open>tbb::blocked_range<int>(size_t(0), size_t(n), tbb_grain_size_)\<close>: the bounds are
  converted to \<^verbatim>\<open>int\<close>, and a range whose end is not above its begin is empty. The
  blocks of the range are visited by parallel tasks in no fixed order; the embedding
  visits the indices in increasing order, one schedule among them.
\<close>

definition blocked_range :: "nat \<Rightarrow> nat list" where
  "blocked_range n = [0 ..< nat (sint (word_of_nat n :: 32 word))]"

text \<open>
  \<^verbatim>\<open>iterate_over_particles\<close> (mesh.tcc, lines 782 to 793). The operator is a callable
  applied to the particle pointer; what it changes is the state \<open>'s\<close>.
\<close>

definition iterate_over_particles :: "('p, 'd) Mesh \<Rightarrow> (ptr \<Rightarrow> 's \<Rightarrow> 's) \<Rightarrow> 's \<Rightarrow> 's" where
  "iterate_over_particles m oper s =
     foldl (\<lambda>t i. oper (particles m ! i) t) s (blocked_range (length (particles m)))"

text \<open>
  \<^verbatim>\<open>iterate_over_particle_set\<close> (mesh.tcc, lines 795 to 823). \<^verbatim>\<open>particle_sets_.at\<close>
  throws \<^verbatim>\<open>std::out_of_range\<close> for an unknown set id, and the function has no handler.
  \<^verbatim>\<open>unsigned id = set[i]\<close> keeps the low 32 bits of the particle id.
\<close>

definition iterate_over_particle_set ::
  "('p, 'd) Mesh \<Rightarrow> 32 word \<Rightarrow> (ptr \<Rightarrow> 's \<Rightarrow> 's) \<Rightarrow> 's \<Rightarrow> exn + 's" where
  "iterate_over_particle_set m set_id oper s =
     (if set_id = - 1 then
        Inr (foldl (\<lambda>t i. oper (particles m ! i) t) s (blocked_range (length (particles m))))
      else
        (case particle_sets m set_id of
           None \<Rightarrow> Inl OutOfRange
         | Some pset \<Rightarrow>
             Inr (foldl
                    (\<lambda>t i. let pid = (ucast (ucast (pset ! i :: Index) :: 32 word) :: Index)
                           in case Map_find (map_particles m) pid of
                                None \<Rightarrow> t
                              | Some p \<Rightarrow> oper p t)
                    s (blocked_range (length pset)))))"

section \<open>Particle tractions\<close>


section \<open>Domain-shared nodes\<close>

text \<open>
  Modelled from the spec: \<^verbatim>\<open>Node::clear_mpi_ranks\<close>, \<^verbatim>\<open>Node::ghost_id\<close> and
  \<^verbatim>\<open>Cell::assign_mpi_rank_to_nodes\<close> (\<^verbatim>\<open>node.h\<close> and \<^verbatim>\<open>cell.h\<close> are not among the
  sources). Section 4.3: the ranks of a node are the MPI ranks of all cells touching it,
  so a cell adds its rank to each of its nodes.
\<close>

definition Node_update :: "('p, 'd) Mesh \<Rightarrow> ptr \<Rightarrow> (Node \<Rightarrow> Node) \<Rightarrow> ('p, 'd) Mesh" where
  "Node_update m a f = m\<lparr>node_heap := (node_heap m)(a := f (node_heap m a))\<rparr>"

definition clear_mpi_ranks :: "('p, 'd) Mesh \<Rightarrow> ptr \<Rightarrow> ('p, 'd) Mesh" where
  "clear_mpi_ranks m node = Node_update m node (\<lambda>x. x\<lparr>n_mpi_ranks := {}\<rparr>)"

definition assign_mpi_rank_to_nodes :: "('p, 'd) Mesh \<Rightarrow> ptr \<Rightarrow> ('p, 'd) Mesh" where
  "assign_mpi_rank_to_nodes m cell =
     foldl (\<lambda>t node. Node_update t node
                       (\<lambda>x. x\<lparr>n_mpi_ranks := insert (c_rank (cell_heap m cell)) (n_mpi_ranks x)\<rparr>))
       m (c_nodes (cell_heap m cell))"

text \<open>
  \<^verbatim>\<open>find_domain_shared_nodes\<close> (mesh.tcc, lines 671 to 722). The two loops under
  \<^verbatim>\<open>tbb::parallel_for_each\<close> are embedded in container order; their steps commute.
  \<open>mpi_rank\<close> is the rank \<^verbatim>\<open>MPI_Comm_rank\<close> gives, 0 without MPI. The first argument
  says whether \<^verbatim>\<open>USE_HALO_EXCHANGE\<close> is defined. \<^verbatim>\<open>domain_shared_nodes_.add(*nitr)\<close>
  uses the default of the second parameter, duplicate checking, as mesh.h declares it for
  \<^verbatim>\<open>add_node\<close>.
\<close>

definition shared_node_step :: "bool \<Rightarrow> nat \<Rightarrow> ('p, 'd) Mesh \<Rightarrow> ptr \<Rightarrow> ('p, 'd) Mesh" where
  "shared_node_step use_halo_exchange mpi_rank m node =
     (let nodal_mpi_ranks = n_mpi_ranks (node_heap m node) in
      if use_halo_exchange then
        (let nodal_mpi_ranks_size = (word_of_nat (card nodal_mpi_ranks) :: 32 word) in
         if 1 < nodal_mpi_ranks_size then
           if mpi_rank \<in> nodal_mpi_ranks then
             (let m1 = Node_update m node (\<lambda>x. x\<lparr>n_ghost_id := ncomms m\<rparr>);
                  m2 = m1\<lparr>domain_shared_nodes :=
                           snd (Container_add (\<lambda>a. n_id (node_heap m1 a))
                                  (domain_shared_nodes m1) node True)\<rparr>
              in m2\<lparr>ncomms := ncomms m2 + (nodal_mpi_ranks_size - 1)\<rparr>)
           else m
         else m)
      else
        (if 1 < card nodal_mpi_ranks then
           (let m1 = Node_update m node (\<lambda>x. x\<lparr>n_ghost_id := nhalo_nodes m\<rparr>);
                m2 = m1\<lparr>nhalo_nodes := nhalo_nodes m1 + 1\<rparr>
            in if mpi_rank \<in> nodal_mpi_ranks
               then m2\<lparr>domain_shared_nodes :=
                         snd (Container_add (\<lambda>a. n_id (node_heap m2 a))
                                (domain_shared_nodes m2) node True)\<rparr>
               else m2)
         else m))"

definition find_domain_shared_nodes :: "bool \<Rightarrow> nat \<Rightarrow> ('p, 'd) Mesh \<Rightarrow> ('p, 'd) Mesh" where
  "find_domain_shared_nodes use_halo_exchange mpi_rank m =
     (let m1 = foldl clear_mpi_ranks m (nodes m);
          m2 = foldl assign_mpi_rank_to_nodes m1 (cells m1);
          m3 = m2\<lparr>domain_shared_nodes := []\<rparr>;
          m4 = (if use_halo_exchange then m3\<lparr>ncomms := 0\<rparr> else m3\<lparr>nhalo_nodes := 0\<rparr>)
      in foldl (shared_node_step use_halo_exchange mpi_rank) m4 (nodes m4))"

section \<open>Nodal halo exchange\<close>

text \<open>
  \<^verbatim>\<open>nodal_halo_exchange\<close> is a function of one rank; every rank of the communicator
  runs it on its own mesh. The embedding runs the ranks \<open>0\<close> to \<open>mpi_size - 1\<close>
  together: \<open>ms ! r\<close> is the mesh of rank \<open>r\<close>, \<open>getter r\<close> and \<open>setter r\<close> are the
  functors on that rank, and \<open>ss ! r\<close> is the state the functors of rank \<open>r\<close> read
  and write, the nodal quantities of that rank. The values are elements of a commutative
  monoid: the code adds \<^verbatim>\<open>double\<close>s, whose rounding is not part of the embedding.
\<close>

subsection \<open>The build without \<^verbatim>\<open>USE_HALO_EXCHANGE\<close>\<close>






subsection \<open>The build with \<^verbatim>\<open>USE_HALO_EXCHANGE\<close>\<close>

text \<open>
  Point-to-point messages as the MPI standard defines them, for the calls of mesh.tcc,
  lines 121 to 177: a message is matched by its source, its destination and its tag, and
  two messages that match the same receive are received in the order they were sent. The
  mailbox holds, for every source, destination and tag, the messages sent and not yet
  received. The tag is the node id converted to \<^verbatim>\<open>int\<close>; a rank outside the
  communicator and a negative tag are errors, on which the default error handler ends
  the program (the largest tag \<^verbatim>\<open>MPI_TAG_UB\<close> is the choice of the library, here the
  largest \<^verbatim>\<open>int\<close>). \<^verbatim>\<open>MPI_Isend\<close> is given the address of a variable of the loop
  body, which is gone before \<^verbatim>\<open>MPI_Wait\<close>; the embedding takes the value at the call,
  as a library that buffers the message does, and such a send completes without the
  receive. \<^verbatim>\<open>MPI_Recv\<close> with no matching message never returns: no rank sends after
  its first receive.
\<close>

type_synonym 'a mailbox = "nat \<times> nat \<times> 32 word \<Rightarrow> 'a list"













section \<open>Particle velocity constraints\<close>

text \<open>
  \<^verbatim>\<open>create_particle_velocity_constraint\<close> (mesh.tcc, lines 997 to 1017). \<open>Tdim\<close> is
  the template parameter.
\<close>

definition create_particle_velocity_constraint ::
  "nat \<Rightarrow> ('p, 'd) Mesh \<Rightarrow> 32 word \<Rightarrow> 'd VelocityConstraint \<Rightarrow> (bool, 'p, 'd) outcome" where
  "create_particle_velocity_constraint Tdim m set_id constraint =
     catch_exception
       (if set_id = - 1 \<or> set_id \<in> dom (particle_sets m) then
          if unat (vc_dir constraint) < Tdim then
            (Inr True, m\<lparr>particle_velocity_constraints :=
                            particle_velocity_constraints m @ [constraint]\<rparr>)
          else (Inl (RuntimeError ''Invalid direction of velocity constraint''), m)
        else (Inl (RuntimeError ''No particle set found to assign velocity constraint''), m))"

section \<open>Further members of the mesh\<close>

text \<open>
  Modelled from the spec: the state of a particle that the interchange record carries
  (\<^verbatim>\<open>particle.h\<close> is not among the sources). Section 3: a particle has a material
  reference and a physical state; section 6 lists what the record holds of it. A vector
  or tensor of doubles is a value of type \<open>'p\<close>, a double a value of type \<open>'d\<close>; a
  value stands for the bits stored, so equal values are equal bit for bit.
\<close>

record ('p, 'd) ParticleState =
  ps_velocity :: 'p
  ps_mass :: 'd
  ps_stress :: 'p
  ps_strain :: 'p
  ps_material :: "ptr option"         \<comment> \<open>the material handle, \<open>None\<close> for \<^verbatim>\<open>nullptr\<close>\<close>
  ps_material_id :: "32 word"         \<comment> \<open>the id of that material\<close>
  ps_state_variables :: "'d list"

text \<open>
  The mesh with the members of \<^verbatim>\<open>mpm::Mesh<Tdim>\<close> (mesh.h, lines 443 to 502) that
  the operations below use beyond those of \<open>Mesh\<close>: the mesh id, the neighbour
  meshes, the node and cell sets and the materials. \<open>particle_state\<close> is the store of
  the physical state of the particles, \<open>free_address\<close> the address the next new
  object gets, and \<open>hidden\<close> stands for everything that the classes outside the
  sources keep and this development does not hold.
\<close>

record ('p, 'd, 'h) Mesh_full =
  mesh :: "('p, 'd) Mesh"
  mesh_id :: "32 word"                            \<comment> \<open>\<^verbatim>\<open>id_\<close>\<close>
  isoparametric :: bool                           \<comment> \<open>\<^verbatim>\<open>isoparametric_\<close>\<close>
  neighbour_meshes :: "(Index \<times> ptr) list"         \<comment> \<open>\<^verbatim>\<open>Map<Mesh>\<close>\<close>
  node_sets :: "32 word \<rightharpoonup> ptr list"              \<comment> \<open>\<^verbatim>\<open>robin_map<unsigned, Container<NodeBase>>\<close>\<close>
  cell_sets :: "32 word \<rightharpoonup> ptr list"              \<comment> \<open>\<^verbatim>\<open>robin_map<unsigned, Container<Cell>>\<close>\<close>
  materials :: "32 word \<rightharpoonup> ptr"                   \<comment> \<open>\<^verbatim>\<open>std::map<unsigned, shared_ptr<Material>>\<close>\<close>
  particle_state :: "ptr \<Rightarrow> ('p, 'd) ParticleState"
  free_address :: ptr
  hidden :: 'h

section \<open>Export and import of the particles\<close>

text \<open>
  Modelled from the spec: the particle interchange record, \<^verbatim>\<open>ParticleBase::hdf5\<close> and
  \<^verbatim>\<open>ParticleBase::initialise_particle\<close> (\<^verbatim>\<open>hdf5_particle.h\<close> and \<^verbatim>\<open>particle.h\<close> are
  not among the sources). Section 6: a fixed-layout record per particle containing at
  minimum id, coordinates, velocity, mass, stress and strain state, material id, and a
  small fixed-capacity array of state variables; import re-hydrates live particles from
  the records. \<open>nsvars\<close> is the capacity of that array, a constant of the record type;
  entries beyond the state variables of the particle are zero, as in
  \<^verbatim>\<open>hdf5_particle_twophase.h\<close>, line 23. The record has no room for state variables
  beyond its capacity.
\<close>

record ('p, 'd) HDF5Particle =
  h_id :: Index
  h_coordinates :: 'p
  h_velocity :: 'p
  h_mass :: 'd
  h_stress :: 'p
  h_strain :: 'p
  h_material_id :: "32 word"
  h_nstate_vars :: "32 word"
  h_svars :: "'d list"


definition initialise_particle ::
  "('p, 'd, 'h) Mesh_full \<Rightarrow> ptr \<Rightarrow> ('p, 'd) HDF5Particle \<Rightarrow> ptr \<Rightarrow> ('p, 'd, 'h) Mesh_full" where
  "initialise_particle s particle record material =
     s\<lparr>mesh := Particle_update (mesh s) particle
                  (\<lambda>p. p\<lparr>p_id := h_id record, p_coordinates := h_coordinates record\<rparr>),
       particle_state := (particle_state s)
         (particle := \<lparr>ps_velocity = h_velocity record, ps_mass = h_mass record,
                       ps_stress = h_stress record, ps_strain = h_strain record,
                       ps_material = Some material, ps_material_id = h_material_id record,
                       ps_state_variables =
                         take (unat (h_nstate_vars record)) (h_svars record)\<rparr>)\<rparr>"





section \<open>Consistency of a mesh\<close>

text \<open>
  A container and its id map are in sync when they have the same size and the map
  holds, under its id, exactly the objects of the container (section 4.1). The keys of a
  map are distinct.
\<close>

definition in_sync :: "(ptr \<Rightarrow> Index) \<Rightarrow> ptr list \<Rightarrow> (Index \<times> ptr) list \<Rightarrow> bool" where
  "in_sync idf xs mp \<longleftrightarrow>
     length xs = length mp \<and> distinct (map fst mp) \<and> set mp = (\<lambda>p. (idf p, p)) ` set xs"

definition mesh_in_sync :: "('p, 'd) Mesh \<Rightarrow> bool" where
  "mesh_in_sync m \<longleftrightarrow>
     in_sync (\<lambda>a. n_id (node_heap m a)) (nodes m) (map_nodes m) \<and>
     in_sync (\<lambda>a. c_id (cell_heap m a)) (cells m) (map_cells m) \<and>
     in_sync (\<lambda>a. p_id (particle_heap m a)) (particles m) (map_particles m)"

text \<open>
  The cells are consistent when every entry of the cell map is a cell of the container
  under its own id and every neighbour id of a cell is in the map. A particle is
  consistent with the mesh when its cell id is the sentinel or in the cell map, and its
  cell pointer is null or a cell of the container with that id.
\<close>

definition cells_consistent :: "('p, 'd) Mesh \<Rightarrow> bool" where
  "cells_consistent m \<longleftrightarrow>
     (\<forall>e \<in> set (map_cells m). snd e \<in> set (cells m) \<and> c_id (cell_heap m (snd e)) = fst e) \<and>
     (\<forall>c \<in> set (cells m). \<forall>n \<in> set (c_neighbours (cell_heap m c)). n \<in> fst ` set (map_cells m))"

definition particle_consistent :: "('p, 'd) Mesh \<Rightarrow> ptr \<Rightarrow> bool" where
  "particle_consistent m particle \<longleftrightarrow>
     (p_cell_id (particle_heap m particle) = max_Index \<or>
      p_cell_id (particle_heap m particle) \<in> fst ` set (map_cells m)) \<and>
     (case p_cell_ptr (particle_heap m particle) of
        None \<Rightarrow> True
      | Some c \<Rightarrow> c \<in> set (cells m) \<and> c_id (cell_heap m c) = p_cell_id (particle_heap m particle))"

text \<open>A sequence of calls of the add and remove operations, and the mesh after it.\<close>

datatype mesh_op =
    AddNode ptr bool | RemoveNode ptr
  | AddCell ptr bool | RemoveCell ptr
  | AddParticle ptr bool | RemoveParticle ptr

fun apply_op :: "('p, 'd) Mesh \<Rightarrow> mesh_op \<Rightarrow> (bool, 'p, 'd) outcome" where
  "apply_op m (AddNode a chk) = add_node m a chk"
| "apply_op m (RemoveNode a) = remove_node m a"
| "apply_op m (AddCell a chk) = add_cell m a chk"
| "apply_op m (RemoveCell a) = remove_cell m a"
| "apply_op m (AddParticle a chk) = add_particle m a chk"
| "apply_op m (RemoveParticle a) = remove_particle m a"

definition run_ops :: "('p, 'd) Mesh \<Rightarrow> mesh_op list \<Rightarrow> ('p, 'd) Mesh" where
  "run_ops m ops = foldl (\<lambda>t op. snd (apply_op t op)) m ops"

fun duplicate_checked :: "mesh_op \<Rightarrow> bool" where
  "duplicate_checked (AddNode a chk) = chk"
| "duplicate_checked (AddCell a chk) = chk"
| "duplicate_checked (AddParticle a chk) = chk"
| "duplicate_checked _ = True"

text \<open>
  What a successful localization leaves in the particle \<open>a\<close>: a cell of the mesh as
  its cell, with the id of that cell, and that cell contains the coordinates of the
  particle.
\<close>

definition located_in :: "('p, 'd) Mesh \<Rightarrow> ptr \<Rightarrow> ('p, 'd) Mesh \<Rightarrow> bool" where
  "located_in m a m' \<longleftrightarrow>
     (\<exists>c \<in> set (cells m). p_cell_ptr (particle_heap m' a) = Some c \<and>
        p_cell_id (particle_heap m' a) = c_id (cell_heap m c) \<and>
        c_is_point_in_cell (cell_heap m c) (p_coordinates (particle_heap m a)))"

text \<open>
  Two meshes hold the same entities when their containers and maps are equal, their
  nodes and cells are equal, and every particle has the id it had.
\<close>

definition same_entities :: "('p, 'd) Mesh \<Rightarrow> ('p, 'd) Mesh \<Rightarrow> bool" where
  "same_entities m m' \<longleftrightarrow>
     nodes m' = nodes m \<and> map_nodes m' = map_nodes m \<and> node_heap m' = node_heap m \<and>
     cells m' = cells m \<and> map_cells m' = map_cells m \<and> cell_heap m' = cell_heap m \<and>
     particles m' = particles m \<and> map_particles m' = map_particles m \<and>
     (\<forall>b. p_id (particle_heap m' b) = p_id (particle_heap m b))"

text \<open>
  The set of MPI ranks of all cells of the mesh that touch a node (section 4.3), and the
  nodes touched by more than one rank. \<open>ghost_index m i\<close> counts the shared nodes that
  stand before position \<open>i\<close> of the node container.
\<close>

definition touching_ranks :: "('p, 'd) Mesh \<Rightarrow> ptr \<Rightarrow> nat set" where
  "touching_ranks m node =
     set (map (\<lambda>c. c_rank (cell_heap m c))
            (filter (\<lambda>c. node \<in> set (c_nodes (cell_heap m c))) (cells m)))"

definition is_shared :: "('p, 'd) Mesh \<Rightarrow> ptr \<Rightarrow> bool" where
  "is_shared m node \<longleftrightarrow> 1 < card (touching_ranks m node)"

definition ghost_index :: "('p, 'd) Mesh \<Rightarrow> nat \<Rightarrow> nat" where
  "ghost_index m i = length (filter (is_shared m) (take i (nodes m)))"

text \<open>
  Two meshes agree up to the halo bookkeeping when they differ at most in the ghost ids
  of the nodes, the container of domain-shared nodes and the two counters.
\<close>

definition same_but_ghost :: "('p, 'd) Mesh \<Rightarrow> ('p, 'd) Mesh \<Rightarrow> bool" where
  "same_but_ghost t u \<longleftrightarrow>
     particles u = particles t \<and> particles_cell_ids u = particles_cell_ids t \<and>
     particle_sets u = particle_sets t \<and> map_particles u = map_particles t \<and>
     nodes u = nodes t \<and> map_nodes u = map_nodes t \<and> map_cells u = map_cells t \<and>
     cells u = cells t \<and> particle_tractions u = particle_tractions t \<and>
     particle_velocity_constraints u = particle_velocity_constraints t \<and>
     console u = console t \<and> particle_heap u = particle_heap t \<and>
     cell_heap u = cell_heap t \<and>
     (\<forall>a. n_id (node_heap u a) = n_id (node_heap t a) \<and>
          n_mpi_ranks (node_heap u a) = n_mpi_ranks (node_heap t a))"

definition halo_equiv :: "('p, 'd) Mesh \<Rightarrow> ('p, 'd) Mesh \<Rightarrow> bool" where
  "halo_equiv t u \<longleftrightarrow>
     same_but_ghost t u \<and> domain_shared_nodes u = domain_shared_nodes t \<and>
     nhalo_nodes u = nhalo_nodes t \<and> ncomms u = ncomms t"
  \<comment> \<open>the two meshes differ at most in the ghost ids of the nodes\<close>

text \<open>
  A step of the loop over the nodes writes the ghost id of the node when this holds.
\<close>

definition writes_ghost :: "bool \<Rightarrow> nat \<Rightarrow> ('p, 'd) Mesh \<Rightarrow> ptr \<Rightarrow> bool" where
  "writes_ghost h r t a \<longleftrightarrow>
     (if h then 1 < (word_of_nat (card (n_mpi_ranks (node_heap t a))) :: 32 word) \<and>
               r \<in> n_mpi_ranks (node_heap t a)
      else 1 < card (n_mpi_ranks (node_heap t a)))"

text \<open>
  The mesh when the loop over the nodes starts: the ranks of the nodes of the container
  have been cleared, every cell has added its rank to its nodes, the container of
  domain-shared nodes is empty and the counter of the build is zero.
\<close>

definition halo_start :: "bool \<Rightarrow> ('p, 'd) Mesh \<Rightarrow> ('p, 'd) Mesh" where
  "halo_start h m =
     (let m3 = m\<lparr>node_heap := (\<lambda>a. (node_heap m a)\<lparr>n_mpi_ranks :=
                    (if a \<in> set (nodes m) then {} else n_mpi_ranks (node_heap m a))
                      \<union> touching_ranks m a\<rparr>),
                  domain_shared_nodes := []\<rparr>
      in if h then m3\<lparr>ncomms := 0\<rparr> else m3\<lparr>nhalo_nodes := 0\<rparr>)"



text \<open>
  The mailbox after a list of messages has been delivered to it, each message with the
  source, destination and tag it is sent with; the messages a rank sends for a node of
  given tag and value to the ranks of a list, its own excepted; and the messages rank
  \<open>r\<close> sends for a node of its mesh.
\<close>

definition delivered :: "'a mailbox \<Rightarrow> ((nat \<times> nat \<times> 32 word) \<times> 'a) list \<Rightarrow> 'a mailbox" where
  "delivered mb msgs = (\<lambda>key. mb key @ map snd (filter (\<lambda>kv. fst kv = key) msgs))"

definition rank_messages ::
  "nat \<Rightarrow> 32 word \<Rightarrow> 'a \<Rightarrow> nat list \<Rightarrow> ((nat \<times> nat \<times> 32 word) \<times> 'a) list" where
  "rank_messages r tag v rs = map (\<lambda>q. ((r, q, tag), v)) (filter (\<lambda>q. q \<noteq> r) rs)"


section \<open>Example meshes\<close>

text \<open>
  The constructor (mesh.tcc, lines 1 to 12) leaves every container empty; the stores
  are the memory the mesh lives in.
\<close>

definition Mesh_init ::
  "(ptr \<Rightarrow> 'p Particle) \<Rightarrow> (ptr \<Rightarrow> Node) \<Rightarrow> (ptr \<Rightarrow> 'p Cell) \<Rightarrow> ('p, 'd) Mesh" where
  "Mesh_init ph nh ch =
     \<lparr>particles = [], particles_cell_ids = Map.empty, particle_sets = Map.empty,
      map_particles = [], nodes = [], domain_shared_nodes = [], map_nodes = [],
      map_cells = [], cells = [], particle_tractions = [],
      particle_velocity_constraints = [], console = [], nhalo_nodes = 0, ncomms = 0,
      particle_heap = ph, node_heap = nh, cell_heap = ch\<rparr>"

text \<open>
  Points on a line, as integers. Cell \<open>k\<close> is at address \<open>k\<close>, has id \<open>k\<close> and
  contains the points from \<open>10 k\<close> up to \<open>10 k + 10\<close>; cells 0 and 1 are neighbours,
  and cell \<open>k\<close> belongs to rank \<open>k\<close>. Node \<open>k\<close> is at address \<open>k\<close> and holds the
  stale ghost id 7;
  cell \<open>k\<close> has the nodes \<open>k\<close> and \<open>k + 1\<close>. The particle at address \<open>a\<close> has id
  \<open>a\<close>, lies at the point \<open>a\<close> and holds cell 0. The mesh holds two cells, three
  nodes, the particles 5, 15 and 25 (the last one has left both cells) and the particle
  set 3.
\<close>

definition line_cell :: "ptr \<Rightarrow> int Cell" where
  "line_cell k =
     \<lparr>c_id = word_of_nat k, c_rank = k, c_nodes = [k, k + 1],
      c_neighbours = (if k = 0 then [1] else if k = 1 then [0] else []),
      c_particles = [],
      c_is_point_in_cell = (\<lambda>x. 10 * int k \<le> x \<and> x \<le> 10 * int k + 10),
      c_local_xi = (\<lambda>x. x - 10 * int k)\<rparr>"

definition line_particle :: "ptr \<Rightarrow> int Particle" where
  "line_particle a =
     \<lparr>p_id = word_of_nat a, p_coordinates = int a, p_xi = 0, p_cell_id = 0,
      p_cell_ptr = Some 0\<rparr>"

definition line_node :: "ptr \<Rightarrow> Node" where
  "line_node k = \<lparr>n_id = word_of_nat k, n_mpi_ranks = {}, n_ghost_id = 7\<rparr>"

definition line_mesh :: "(int, int) Mesh" where
  "line_mesh =
     (Mesh_init line_particle line_node line_cell)
       \<lparr>particles := [5, 15, 25], particles_cell_ids := [5 \<mapsto> 0, 15 \<mapsto> 0, 25 \<mapsto> 0],
        particle_sets := [3 \<mapsto> [5, 15]], map_particles := [(5, 5), (15, 15), (25, 25)],
        nodes := [0, 1, 2], map_nodes := [(0, 0), (1, 1), (2, 2)],
        cells := [0, 1], map_cells := [(0, 0), (1, 1)]\<rparr>"

text \<open>
  The same line with three cells and four nodes, for three ranks: node 1 is shared by
  the ranks 0 and 1, node 2 by the ranks 1 and 2.
\<close>

definition chain_mesh :: "(int, int) Mesh" where
  "chain_mesh =
     line_mesh\<lparr>nodes := [0, 1, 2, 3], map_nodes := [(0, 0), (1, 1), (2, 2), (3, 3)],
               cells := [0, 1, 2], map_cells := [(0, 0), (1, 1), (2, 2)]\<rparr>"





section \<open>Properties\<close>

text \<open>
  C9. A velocity constraint whose direction is not below \<open>Tdim\<close> is rejected:
  \<^verbatim>\<open>create_particle_velocity_constraint\<close> returns false and the stored list of particle
  velocity constraints is the one before the call. A constraint whose direction is below
  \<open>Tdim\<close>, given with a set id that is \<open>-1\<close> or the id of a particle set of the mesh,
  is accepted: the call returns true and the list is the old one with the constraint
  appended.
\<close>

theorem create_particle_velocity_constraint_direction:
  "(Tdim \<le> unat (vc_dir constraint) \<longrightarrow>
      fst (create_particle_velocity_constraint Tdim m set_id constraint) = Inr False \<and>
      particle_velocity_constraints (snd (create_particle_velocity_constraint Tdim m set_id constraint))
        = particle_velocity_constraints m) \<and>
   (unat (vc_dir constraint) < Tdim \<and> (set_id = - 1 \<or> set_id \<in> dom (particle_sets m)) \<longrightarrow>
      fst (create_particle_velocity_constraint Tdim m set_id constraint) = Inr True \<and>
      particle_velocity_constraints (snd (create_particle_velocity_constraint Tdim m set_id constraint))
        = particle_velocity_constraints m @ [constraint])"
  by (simp add: create_particle_velocity_constraint_def catch_exception_def)

theorem create_particle_velocity_constraint_direction_witness:
  "(2::nat) \<le> unat (vc_dir \<lparr>vc_setid = - 1, vc_dir = 2, vc_velocity = (0::int)\<rparr>) \<and>
   fst (create_particle_velocity_constraint 2 line_mesh (- 1)
          \<lparr>vc_setid = - 1, vc_dir = 2, vc_velocity = 0\<rparr>) = Inr False \<and>
   particle_velocity_constraints
     (snd (create_particle_velocity_constraint 2 line_mesh (- 1)
             \<lparr>vc_setid = - 1, vc_dir = 2, vc_velocity = 0\<rparr>)) = [] \<and>
   unat (vc_dir \<lparr>vc_setid = 3, vc_dir = 1, vc_velocity = (0::int)\<rparr>) < (2::nat) \<and>
   (3::32 word) \<in> dom (particle_sets line_mesh) \<and>
   fst (create_particle_velocity_constraint 2 line_mesh 3
          \<lparr>vc_setid = 3, vc_dir = 1, vc_velocity = 0\<rparr>) = Inr True \<and>
   particle_velocity_constraints
     (snd (create_particle_velocity_constraint 2 line_mesh 3
             \<lparr>vc_setid = 3, vc_dir = 1, vc_velocity = 0\<rparr>))
     = [\<lparr>vc_setid = 3, vc_dir = 1, vc_velocity = 0\<rparr>]"
  using create_particle_velocity_constraint_direction
          [of 2 "\<lparr>vc_setid = - 1, vc_dir = 2, vc_velocity = (0::int)\<rparr>" line_mesh "- 1"]
        create_particle_velocity_constraint_direction
          [of 2 "\<lparr>vc_setid = 3, vc_dir = 1, vc_velocity = (0::int)\<rparr>" line_mesh 3]
  by (simp add: line_mesh_def Mesh_init_def)

subsection \<open>Removal of particles\<close>

lemma Particle_update_fields [simp]:
  "particles (Particle_update m a f) = particles m"
  "particles_cell_ids (Particle_update m a f) = particles_cell_ids m"
  "particle_sets (Particle_update m a f) = particle_sets m"
  "map_particles (Particle_update m a f) = map_particles m"
  "nodes (Particle_update m a f) = nodes m"
  "map_nodes (Particle_update m a f) = map_nodes m"
  "cells (Particle_update m a f) = cells m"
  "map_cells (Particle_update m a f) = map_cells m"
  "cell_heap (Particle_update m a f) = cell_heap m"
  "node_heap (Particle_update m a f) = node_heap m"
  "console (Particle_update m a f) = console m"
  "particle_heap (Particle_update m a f) = (particle_heap m)(a := f (particle_heap m a))"
  by (simp_all add: Particle_update_def)

lemma Particle_remove_cell_fields [simp]:
  "particles (Particle_remove_cell m a) = particles m"
  "particles_cell_ids (Particle_remove_cell m a) = particles_cell_ids m"
  "map_particles (Particle_remove_cell m a) = map_particles m"
  "cells (Particle_remove_cell m a) = cells m"
  "map_cells (Particle_remove_cell m a) = map_cells m"
  "cell_heap (Particle_remove_cell m a) = cell_heap m"
  "p_id (particle_heap (Particle_remove_cell m a) b) = p_id (particle_heap m b)"
  by (simp_all add: Particle_remove_cell_def)

lemma remove_ids_cell_ids:
  "particles_cell_ids (snd (remove_ids m pids)) = particles_cell_ids m"
  by (induction pids arbitrary: m) (simp_all split: sum.splits)

lemma remove_ids_keys:
  "fst (remove_ids m pids) = Inr u \<Longrightarrow>
   fst ` set (map_particles (snd (remove_ids m pids))) = fst ` set (map_particles m) - set pids"
proof (induction pids arbitrary: m)
  case Nil
  then show ?case by simp
next
  case (Cons pid pids)
  then show ?case
    by (auto simp: Map_remove_def Map_at_def split: sum.splits option.splits if_splits
             dest: map_of_SomeD)
qed

lemma refill_particles_fields [simp]:
  "particles_cell_ids (refill_particles m) = particles_cell_ids m"
  "map_particles (refill_particles m) = map_particles m"
  by (simp_all add: refill_particles_def)

lemma remove_nonrank_cells_cell_ids:
  "particles_cell_ids (snd (remove_nonrank_cells r m cs)) = particles_cell_ids m"
proof (induction cs arbitrary: m)
  case Nil
  then show ?case by simp
next
  case (Cons c cs)
  have "particles_cell_ids (snd (remove_ids m (c_particles (cell_heap m c)))) = particles_cell_ids m"
    by (rule remove_ids_cell_ids)
  with Cons show ?case
    by (auto split: prod.splits sum.splits)
qed

text \<open>
  C10. Every operation that removes particles (\<^verbatim>\<open>remove_particle\<close>,
  \<^verbatim>\<open>remove_particle_by_id\<close>, \<^verbatim>\<open>remove_particles\<close>, \<^verbatim>\<open>remove_all_nonrank_particles\<close>)
  leaves the map from particle ids to cell ids that \<^verbatim>\<open>particles_cell_ids()\<close> exposes
  as it was, whether the operation returns or throws. The entries of the removed
  particles stay in it although the particles are gone: after a successful
  \<^verbatim>\<open>remove_particle\<close> the particle is not in the container and its id is not in the
  lookup map, and after \<^verbatim>\<open>remove_particle_by_id\<close> and \<^verbatim>\<open>remove_particles\<close> the
  removed ids are not in the lookup map.
\<close>

theorem removal_keeps_particles_cell_ids:
  "particles_cell_ids_ptr (snd (remove_particle m particle)) = particles_cell_ids_ptr m \<and>
   particles_cell_ids_ptr (snd (remove_particle_by_id m pid)) = particles_cell_ids_ptr m \<and>
   particles_cell_ids_ptr (snd (remove_particles m pids)) = particles_cell_ids_ptr m \<and>
   particles_cell_ids_ptr (snd (remove_all_nonrank_particles mpi_rank m)) = particles_cell_ids_ptr m \<and>
   (fst (remove_particle m particle) = Inr True \<longrightarrow>
      particle \<notin> set (particles (snd (remove_particle m particle))) \<and>
      p_id (particle_heap m particle) \<notin> fst ` set (map_particles (snd (remove_particle m particle)))) \<and>
   (fst (remove_particle_by_id m pid) = Inr True \<longrightarrow>
      pid \<notin> fst ` set (map_particles (snd (remove_particle_by_id m pid)))) \<and>
   (fst (remove_particles m pids) = Inr () \<longrightarrow>
      set pids \<inter> fst ` set (map_particles (snd (remove_particles m pids))) = {})"
proof -
  have a: "particles_cell_ids (snd (remove_particle m particle)) = particles_cell_ids m"
    by (simp add: remove_particle_def Let_def Container_remove_def split: sum.splits)
  have b: "particles_cell_ids (snd (remove_particle_by_id m pid)) = particles_cell_ids m"
    by (simp add: remove_particle_by_id_def Let_def Container_remove_def split: sum.splits)
  have c: "particles_cell_ids (snd (remove_particles m pids)) = particles_cell_ids m"
    using remove_ids_cell_ids [of m pids]
    by (auto simp: remove_particles_def split: prod.splits sum.splits)
  have d: "particles_cell_ids (snd (remove_all_nonrank_particles mpi_rank m)) = particles_cell_ids m"
    using remove_nonrank_cells_cell_ids [of mpi_rank m "cells m"]
    by (auto simp: remove_all_nonrank_particles_def split: prod.splits sum.splits)
  have e: "fst (remove_particle m particle) = Inr True \<longrightarrow>
      particle \<notin> set (particles (snd (remove_particle m particle))) \<and>
      p_id (particle_heap m particle) \<notin> fst ` set (map_particles (snd (remove_particle m particle)))"
    by (auto simp: remove_particle_def Let_def Container_remove_def Map_remove_def
             split: sum.splits if_splits)
  have f: "fst (remove_particle_by_id m pid) = Inr True \<longrightarrow>
      pid \<notin> fst ` set (map_particles (snd (remove_particle_by_id m pid)))"
    by (auto simp: remove_particle_by_id_def Let_def Container_remove_def Map_remove_def
             split: sum.splits if_splits)
  have g: "fst (remove_particles m pids) = Inr () \<longrightarrow>
      set pids \<inter> fst ` set (map_particles (snd (remove_particles m pids))) = {}"
  proof
    assume ok: "fst (remove_particles m pids) = Inr ()"
    show "set pids \<inter> fst ` set (map_particles (snd (remove_particles m pids))) = {}"
    proof (cases "pids = []")
      case True
      then show ?thesis by simp
    next
      case False
      with ok have r: "fst (remove_ids m pids) = Inr ()"
        by (auto simp: remove_particles_def split: prod.splits sum.splits)
      from False r have "map_particles (snd (remove_particles m pids))
            = map_particles (snd (remove_ids m pids))"
        by (auto simp: remove_particles_def split: prod.splits sum.splits)
      with remove_ids_keys [OF r] show ?thesis by auto
    qed
  qed
  from a b c d e f g show ?thesis
    unfolding particles_cell_ids_ptr_def by blast
qed

theorem removal_keeps_particles_cell_ids_witness:
  "fst (remove_particle line_mesh 5) = Inr True \<and>
   5 \<notin> set (particles (snd (remove_particle line_mesh 5))) \<and>
   particles_cell_ids_ptr (snd (remove_particle line_mesh 5)) 5 = Some 0 \<and>
   fst (remove_particle_by_id line_mesh 15) = Inr True \<and>
   15 \<notin> fst ` set (map_particles (snd (remove_particle_by_id line_mesh 15))) \<and>
   particles_cell_ids_ptr (snd (remove_particle_by_id line_mesh 15)) 15 = Some 0 \<and>
   fst (remove_particles line_mesh [5, 15]) = Inr () \<and>
   map_particles (snd (remove_particles line_mesh [5, 15])) = [(25, 25)] \<and>
   particles_cell_ids_ptr (snd (remove_particles line_mesh [5, 15])) 15 = Some 0"
  using removal_keeps_particles_cell_ids [of line_mesh 5 15 "[5, 15]" 0]
  by (simp add: line_mesh_def Mesh_init_def line_particle_def remove_particle_def
        remove_particle_by_id_def remove_particles_def refill_particles_def
        Map_at_def Map_remove_def Container_remove_def Container_add_def
        particles_cell_ids_ptr_def Particle_remove_cell_def Particle_update_def)

subsection \<open>Localization of a particle\<close>

lemmas line_defs = line_mesh_def Mesh_init_def line_particle_def line_cell_def line_node_def

lemma assign_cell_fields [simp]:
  "cells (assign_cell m a c) = cells m"
  "map_cells (assign_cell m a c) = map_cells m"
  "cell_heap (assign_cell m a c) = cell_heap m"
  "console (assign_cell m a c) = console m"
  "particle_heap (assign_cell m a c) =
     (particle_heap m)(a := (particle_heap m a)\<lparr>p_cell_id := c_id (cell_heap m c), p_cell_ptr := Some c\<rparr>)"
  by (simp_all add: assign_cell_def)

lemma assign_cell_xi_fields [simp]:
  "cells (assign_cell_xi m a c x) = cells m"
  "map_cells (assign_cell_xi m a c x) = map_cells m"
  "cell_heap (assign_cell_xi m a c x) = cell_heap m"
  "console (assign_cell_xi m a c x) = console m"
  "particle_heap (assign_cell_xi m a c x) =
     (particle_heap m)(a := (particle_heap m a)\<lparr>p_xi := x, p_cell_id := c_id (cell_heap m c), p_cell_ptr := Some c\<rparr>)"
  by (simp_all add: assign_cell_xi_def)

lemma Map_at_consistent:
  assumes "cells_consistent m" and "k \<in> fst ` set (map_cells m)"
  shows "\<exists>c. Map_at (map_cells m) k = Inr c \<and> c \<in> set (cells m) \<and> c_id (cell_heap m c) = k"
proof -
  from assms(2) obtain c where c: "map_of (map_cells m) k = Some c"
    by (metis domD dom_map_of_conv_image_fst)
  then have "(k, c) \<in> set (map_cells m)" by (rule map_of_SomeD)
  with assms(1) have "c \<in> set (cells m) \<and> c_id (cell_heap m c) = k"
    by (auto simp: cells_consistent_def)
  with c show ?thesis by (simp add: Map_at_def)
qed

lemma find_neighbour_cell_consistent:
  assumes "cells_consistent m" and "set ns \<subseteq> fst ` set (map_cells m)"
  shows "\<exists>r. find_neighbour_cell m x ns = Inr r \<and>
             (\<forall>c. r = Some c \<longrightarrow> c \<in> set (cells m) \<and> c_is_point_in_cell (cell_heap m c) x)"
  using assms(2)
proof (induction ns)
  case Nil
  then show ?case by simp
next
  case (Cons n ns)
  then have "n \<in> fst ` set (map_cells m)" by simp
  from Map_at_consistent [OF assms(1) this] obtain c where
    c: "Map_at (map_cells m) n = Inr c" "c \<in> set (cells m)" by blast
  from Cons have "\<exists>r. find_neighbour_cell m x ns = Inr r \<and>
             (\<forall>c. r = Some c \<longrightarrow> c \<in> set (cells m) \<and> c_is_point_in_cell (cell_heap m c) x)"
    by simp
  with c show ?case by auto
qed

lemma scan_all_cells_result:
  "fst (scan_all_cells m a) =
     Inr (\<exists>c \<in> set (cells m). c_is_point_in_cell (cell_heap m c) (p_coordinates (particle_heap m a)))"
  by (auto simp: scan_all_cells_def Let_def find_None_iff find_Some_iff split: option.splits)

lemma find_SomeD2: "find P xs = Some x \<Longrightarrow> P x \<and> x \<in> set xs"
  by (auto simp: find_Some_iff)

lemma scan_all_cells_post:
  "\<exists>b m'. scan_all_cells m a = (Inr b, m') \<and>
     (b \<longleftrightarrow> (\<exists>c \<in> set (cells m). c_is_point_in_cell (cell_heap m c) (p_coordinates (particle_heap m a)))) \<and>
     p_coordinates (particle_heap m' a) = p_coordinates (particle_heap m a) \<and>
     (b \<longrightarrow> located_in m a m') \<and>
     (\<not> b \<longrightarrow> m' = m)"
proof (cases "find (\<lambda>c. c_is_point_in_cell (cell_heap m c) (p_coordinates (particle_heap m a))) (cells m)")
  case None
  then have "\<not> (\<exists>c \<in> set (cells m). c_is_point_in_cell (cell_heap m c) (p_coordinates (particle_heap m a)))"
    by (simp add: find_None_iff)
  with None show ?thesis
    by (intro exI [of _ False] exI [of _ m]) (simp add: scan_all_cells_def Let_def)
next
  case (Some c)
  then have "c \<in> set (cells m)" "c_is_point_in_cell (cell_heap m c) (p_coordinates (particle_heap m a))"
    using find_SomeD2 [OF Some] by auto
  with Some show ?thesis
    by (auto simp: scan_all_cells_def Let_def located_in_def)
qed

lemma locate_particle_cells_post:
  assumes cc: "cells_consistent m" and pc: "particle_consistent m a"
  shows "\<exists>b m'. locate_particle_cells m a = (Inr b, m') \<and>
     (b \<longleftrightarrow> (\<exists>c \<in> set (cells m). c_is_point_in_cell (cell_heap m c) (p_coordinates (particle_heap m a)))) \<and>
     p_coordinates (particle_heap m' a) = p_coordinates (particle_heap m a) \<and>
     (b \<longrightarrow> located_in m a m') \<and>
     (\<not> b \<longrightarrow> p_cell_id (particle_heap m' a) = p_cell_id (particle_heap m a))"
proof (cases "p_cell_id (particle_heap m a) = max_Index")
  case True
  with scan_all_cells_post [of m a] show ?thesis
    by (auto simp: locate_particle_cells_def)
next
  case False
  let ?x = "p_coordinates (particle_heap m a)"
  let ?k = "p_cell_id (particle_heap m a)"
  from False pc have key: "?k \<in> fst ` set (map_cells m)"
    by (simp add: particle_consistent_def)
  from Map_at_consistent [OF cc key] obtain c0 where
    c0: "Map_at (map_cells m) ?k = Inr c0" "c0 \<in> set (cells m)" "c_id (cell_heap m c0) = ?k"
    by blast
  define m1 where "m1 = (if p_cell_ptr (particle_heap m a) = None then assign_cell m a c0 else m)"
  have first: "(if p_cell_ptr (particle_heap m a) = None
               then (case Map_at (map_cells m) ?k of Inl e \<Rightarrow> Inl e | Inr c \<Rightarrow> Inr (assign_cell m a c))
               else Inr m) = Inr m1"
    by (simp add: m1_def c0)
  have m1_frame: "cells m1 = cells m" "map_cells m1 = map_cells m" "cell_heap m1 = cell_heap m"
    "p_coordinates (particle_heap m1 a) = ?x" "p_cell_id (particle_heap m1 a) = ?k"
    by (simp_all add: m1_def c0)
  obtain c1 where c1: "p_cell_ptr (particle_heap m1 a) = Some c1" "c1 \<in> set (cells m)"
      "c_id (cell_heap m c1) = ?k"
    using pc c0 by (auto simp: m1_def particle_consistent_def split: option.splits)
  show ?thesis
  proof (cases "c_is_point_in_cell (cell_heap m c1) ?x")
    case True
    then have "locate_particle_cells m a =
        (Inr True, Particle_update m1 a (\<lambda>p. p\<lparr>p_xi := c_local_xi (cell_heap m1 c1) (p_coordinates p)\<rparr>))"
      using False first c1 m1_frame
      by (simp add: locate_particle_cells_def compute_reference_location_def)
    moreover have "located_in m a (Particle_update m1 a (\<lambda>p. p\<lparr>p_xi := c_local_xi (cell_heap m1 c1) (p_coordinates p)\<rparr>))"
      using True c1 m1_frame by (auto simp: located_in_def Particle_update_def)
    ultimately show ?thesis
      using True c1 m1_frame by (auto simp: Particle_update_def)
  next
    case out: False
    then have crl: "compute_reference_location m1 a = (False, m1)"
      using c1 m1_frame by (simp add: compute_reference_location_def)
    have at: "Map_at (map_cells m1) (p_cell_id (particle_heap m1 a)) = Inr c0"
      using c0 m1_frame by simp
    have "set (c_neighbours (cell_heap m c0)) \<subseteq> fst ` set (map_cells m)"
      using cc c0 by (auto simp: cells_consistent_def)
    from find_neighbour_cell_consistent [OF cc this, of ?x] obtain r where
      r: "find_neighbour_cell m ?x (c_neighbours (cell_heap m c0)) = Inr r"
         "\<forall>c. r = Some c \<longrightarrow> c \<in> set (cells m) \<and> c_is_point_in_cell (cell_heap m c) ?x"
      by blast
    have fn_eq: "find_neighbour_cell m1 ?x ns = find_neighbour_cell m ?x ns" for ns
      by (induction ns) (simp_all add: m1_frame(1,2,3) split: sum.splits)
    show ?thesis
    proof (cases r)
      case None
      have "locate_particle_cells m a = scan_all_cells m1 a"
        using False first crl at r None m1_frame fn_eq
        by (simp add: locate_particle_cells_def)
      with scan_all_cells_post [of m1 a] show ?thesis
        using m1_frame by (auto simp: located_in_def)
    next
      case (Some c)
      with r have c: "c \<in> set (cells m)" "c_is_point_in_cell (cell_heap m c) ?x" by auto
      have "locate_particle_cells m a =
          (Inr True, assign_cell_xi m1 a c (c_local_xi (cell_heap m1 c) ?x))"
        using False first crl at r Some m1_frame fn_eq
        by (simp add: locate_particle_cells_def)
      then show ?thesis
        using c m1_frame by (auto simp: located_in_def)
    qed
  qed
qed


text \<open>
  C1, as the code has it. In a mesh whose cells are consistent, for every particle that is
  consistent with the mesh, \<^verbatim>\<open>locate_particle_cells\<close> returns (it throws nothing), and it
  returns true if and only if some cell of the mesh contains the coordinates of the
  particle. The coordinates are not changed. When it returns true, the particle holds a
  cell of the mesh, has the id of that cell as its cell id, and the point-containment
  test of that cell holds for the coordinates. When it returns false, the cell id of the
  particle is the one it had before the call: a particle that has left the mesh keeps
  its stale cell id, which is not the sentinel.
\<close>

theorem locate_particle_cells_contract:
  assumes "cells_consistent m" and "particle_consistent m particle"
  shows "fst (locate_particle_cells m particle) =
           Inr (\<exists>c \<in> set (cells m).
                  c_is_point_in_cell (cell_heap m c) (p_coordinates (particle_heap m particle))) \<and>
         p_coordinates (particle_heap (snd (locate_particle_cells m particle)) particle)
           = p_coordinates (particle_heap m particle) \<and>
         (fst (locate_particle_cells m particle) = Inr True \<longrightarrow>
            located_in m particle (snd (locate_particle_cells m particle))) \<and>
         (fst (locate_particle_cells m particle) = Inr False \<longrightarrow>
            p_cell_id (particle_heap (snd (locate_particle_cells m particle)) particle)
              = p_cell_id (particle_heap m particle))"
  using locate_particle_cells_post [OF assms] by auto

theorem locate_particle_cells_contract_witness:
  "cells_consistent line_mesh \<and> particle_consistent line_mesh 15 \<and>
   fst (locate_particle_cells line_mesh 15) = Inr True \<and>
   p_cell_ptr (particle_heap (snd (locate_particle_cells line_mesh 15)) 15) = Some 1 \<and>
   p_cell_id (particle_heap (snd (locate_particle_cells line_mesh 15)) 15) = 1 \<and>
   c_is_point_in_cell (cell_heap line_mesh 1) (p_coordinates (particle_heap line_mesh 15))"
proof -
  have h1: "cells_consistent line_mesh"
    by (simp add: cells_consistent_def line_defs)
  have h2: "particle_consistent line_mesh 15"
    by (simp add: particle_consistent_def line_defs max_Index_def)
  have t: "fst (locate_particle_cells line_mesh 15) = Inr True"
    using locate_particle_cells_contract [OF h1 h2]
    by (simp add: line_defs)
  have "located_in line_mesh 15 (snd (locate_particle_cells line_mesh 15))"
    using locate_particle_cells_contract [OF h1 h2] t by simp
  then show ?thesis
    using h1 h2 t by (auto simp: located_in_def line_defs)
qed

text \<open>
  C1 as stated asks the containment for every particle that has a non-sentinel cell id
  after the call. Particle 25 of the example mesh holds cell 0 and lies outside both
  cells: the call returns false, the cell id is still 0, and cell 0 does not contain the
  particle.
\<close>

theorem locate_particle_cells_stale_cell_id:
  "cells_consistent line_mesh \<and> particle_consistent line_mesh 25 \<and>
   25 \<in> set (particles line_mesh) \<and>
   fst (locate_particle_cells line_mesh 25) = Inr False \<and>
   p_cell_id (particle_heap (snd (locate_particle_cells line_mesh 25)) 25) \<noteq> max_Index \<and>
   Map_at (map_cells (snd (locate_particle_cells line_mesh 25)))
     (p_cell_id (particle_heap (snd (locate_particle_cells line_mesh 25)) 25)) = Inr 0 \<and>
   \<not> c_is_point_in_cell (cell_heap (snd (locate_particle_cells line_mesh 25)) 0)
       (p_coordinates (particle_heap (snd (locate_particle_cells line_mesh 25)) 25))"
  by (simp add: cells_consistent_def particle_consistent_def line_defs max_Index_def
        locate_particle_cells_def compute_reference_location_def scan_all_cells_def
        Map_at_def)

subsection \<open>Iteration over the particles and over a particle set\<close>

lemma blocked_range_small: "n < 2 ^ 31 \<Longrightarrow> blocked_range n = [0 ..< n]"
proof -
  assume n: "n < 2 ^ 31"
  have "sint (word_of_nat n :: 32 word) = int n"
    using n by (simp add: signed_of_nat signed_take_bit_int_eq_self)
  then show ?thesis by (simp add: blocked_range_def)
qed

lemma foldl_visit_log: "foldl (\<lambda>t i. t @ [f i]) acc is = acc @ map f is"
  by (induction "is" arbitrary: acc) simp_all

text \<open>
  C7. For every operator and every state it acts on, \<^verbatim>\<open>iterate_over_particle_set\<close>
  with the set id \<open>-1\<close> returns, with the result of \<^verbatim>\<open>iterate_over_particles\<close>: the
  two apply the operator to the same particles. With the operator that records the
  pointer it is given, both visit the entries of the particle container, each exactly
  once (here in container order, one of the orders the parallel loop may take),
  provided the number of particles fits the \<^verbatim>\<open>int\<close> bounds of the blocked range.
\<close>

theorem iterate_over_particle_set_all:
  "iterate_over_particle_set m (- 1) oper s = Inr (iterate_over_particles m oper s) \<and>
   (length (particles m) < 2 ^ 31 \<longrightarrow>
      iterate_over_particles m (\<lambda>p visited. visited @ [p]) [] = particles m \<and>
      iterate_over_particle_set m (- 1) (\<lambda>p visited. visited @ [p]) [] = Inr (particles m))"
  by (simp add: iterate_over_particle_set_def iterate_over_particles_def blocked_range_small
        foldl_visit_log map_nth)

theorem iterate_over_particle_set_all_witness:
  "length (particles line_mesh) < 2 ^ 31 \<and>
   iterate_over_particles line_mesh (\<lambda>p visited. visited @ [p]) [] = [5, 15, 25] \<and>
   iterate_over_particle_set line_mesh (- 1) (\<lambda>p visited. visited @ [p]) [] = Inr [5, 15, 25]"
  using iterate_over_particle_set_all [of line_mesh "\<lambda>p visited. visited @ [p]" "[]"]
  by (simp add: line_mesh_def Mesh_init_def)

subsection \<open>Exceptions and the status channel\<close>




lemma scan_all_cells_console [simp]: "console (snd (scan_all_cells m a)) = console m"
  by (simp add: scan_all_cells_def Let_def split: option.splits)


lemma add_particle_insert_console [simp]:
  "console (snd (add_particle_insert m a chk)) = console m"
  by (simp add: add_particle_insert_def Let_def split: prod.splits)






subsection \<open>Containers and maps stay in sync\<close>

lemma in_sync_alt:
  "in_sync idf xs mp \<longleftrightarrow>
     distinct (map idf xs) \<and> distinct (map fst mp) \<and> set mp = (\<lambda>p. (idf p, p)) ` set xs"
proof
  assume s: "in_sync idf xs mp"
  then have len: "length xs = length mp" and dk: "distinct (map fst mp)"
    and st: "set mp = (\<lambda>p. (idf p, p)) ` set xs"
    by (simp_all add: in_sync_def)
  from dk have dm: "distinct mp" by (simp add: distinct_map)
  have inj: "inj_on (\<lambda>p. (idf p, p)) (set xs)" by (rule inj_onI) simp
  have "card (set xs) = card (set mp)" using st inj by (simp add: card_image)
  also have "\<dots> = length mp" using dm by (rule distinct_card)
  finally have "card (set xs) = length xs" using len by simp
  then have dx: "distinct xs" by (rule card_distinct)
  have "inj_on idf (set xs)"
  proof (rule inj_onI)
    fix p q assume pq: "p \<in> set xs" "q \<in> set xs" "idf p = idf q"
    have "(idf p, p) \<in> set mp" using st pq(1) by blast
    moreover have "(idf q, q) \<in> set mp" using st pq(2) by blast
    ultimately have "(idf p, p) \<in> set mp" "(idf p, q) \<in> set mp" using pq(3) by simp_all
    with dk show "p = q" by (rule eq_key_imp_eq_value)
  qed
  with dx have "distinct (map idf xs)" by (simp add: distinct_map)
  with dk st show "distinct (map idf xs) \<and> distinct (map fst mp) \<and> set mp = (\<lambda>p. (idf p, p)) ` set xs"
    by simp
next
  assume a: "distinct (map idf xs) \<and> distinct (map fst mp) \<and> set mp = (\<lambda>p. (idf p, p)) ` set xs"
  then have dk: "distinct (map fst mp)"
    and st: "set mp = (\<lambda>p. (idf p, p)) ` set xs"
    by simp_all
  from a have dx: "distinct xs" by (simp add: distinct_map)
  from dk have dm: "distinct mp" by (simp add: distinct_map)
  have inj: "inj_on (\<lambda>p. (idf p, p)) (set xs)" by (rule inj_onI) simp
  have "length xs = card (set xs)" using dx by (simp add: distinct_card)
  also have "\<dots> = card (set mp)" using st inj by (simp add: card_image)
  also have "\<dots> = length mp" using dm by (rule distinct_card)
  finally show "in_sync idf xs mp" using dk st by (simp add: in_sync_def)
qed

lemma in_sync_keys: "in_sync idf xs mp \<Longrightarrow> fst ` set mp = idf ` set xs"
  by (force simp: in_sync_def)

lemma in_sync_add:
  assumes "in_sync idf xs mp"
  shows "in_sync idf (snd (Container_add idf xs p True)) (snd (Map_insert mp (idf p) p))"
proof (cases "idf p \<in> idf ` set xs")
  case True
  with in_sync_keys [OF assms] show ?thesis
    using assms by (simp add: Container_add_def Map_insert_def)
next
  case False
  with in_sync_keys [OF assms] have nk: "idf p \<notin> fst ` set mp" by simp
  from assms False nk show ?thesis
    by (auto simp: in_sync_alt Container_add_def Map_insert_def)
qed

lemma in_sync_remove:
  assumes "in_sync idf xs mp" and "p \<in> set xs"
  shows "in_sync idf (removeAll p xs) (snd (Map_remove mp (idf p)))"
proof -
  from assms(1) have dx: "distinct (map idf xs)" and dk: "distinct (map fst mp)"
    and st: "set mp = (\<lambda>p. (idf p, p)) ` set xs"
    by (simp_all add: in_sync_alt)
  from dx have inj: "inj_on idf (set xs)" by (simp add: distinct_map)
  have k: "idf p \<in> fst ` set mp" using st assms(2) by force
  have 1: "distinct (map idf (removeAll p xs))"
    using dx by (simp add: removeAll_filter_not_eq distinct_map_filter)
  have 2: "distinct (map fst (filter (\<lambda>e. fst e \<noteq> idf p) mp))"
    using dk by (rule distinct_map_filter)
  have 3: "set (filter (\<lambda>e. fst e \<noteq> idf p) mp) = (\<lambda>p. (idf p, p)) ` set (removeAll p xs)"
    using st inj assms(2) by (auto simp: inj_on_def)
  from k 1 2 3 show ?thesis
    by (simp add: in_sync_alt Map_remove_def)
qed

lemma in_sync_ids_cong:
  "(\<And>a. idf' a = idf a) \<Longrightarrow> in_sync idf' xs mp = in_sync idf xs mp"
  by (simp add: in_sync_def)

lemma add_node_in_sync:
  assumes "mesh_in_sync m"
  shows "mesh_in_sync (snd (add_node m node True))"
proof -
  from assms have n: "in_sync (\<lambda>a. n_id (node_heap m a)) (nodes m) (map_nodes m)"
    by (simp add: mesh_in_sync_def)
  show ?thesis
  proof (cases "n_id (node_heap m node) \<in> (\<lambda>a. n_id (node_heap m a)) ` set (nodes m)")
    case True
    then show ?thesis using assms by (simp add: add_node_def Container_add_def)
  next
    case False
    with in_sync_add [OF n, of node] assms show ?thesis
      by (simp add: add_node_def Container_add_def mesh_in_sync_def)
  qed
qed

lemma add_cell_in_sync:
  assumes "mesh_in_sync m"
  shows "mesh_in_sync (snd (add_cell m cell True))"
proof -
  from assms have n: "in_sync (\<lambda>a. c_id (cell_heap m a)) (cells m) (map_cells m)"
    by (simp add: mesh_in_sync_def)
  show ?thesis
  proof (cases "c_id (cell_heap m cell) \<in> (\<lambda>a. c_id (cell_heap m a)) ` set (cells m)")
    case True
    then show ?thesis using assms by (simp add: add_cell_def Container_add_def)
  next
    case False
    with in_sync_add [OF n, of cell] assms show ?thesis
      by (simp add: add_cell_def Container_add_def mesh_in_sync_def)
  qed
qed

lemma remove_node_in_sync:
  assumes "mesh_in_sync m"
  shows "mesh_in_sync (snd (remove_node m node))"
proof -
  from assms have n: "in_sync (\<lambda>a. n_id (node_heap m a)) (nodes m) (map_nodes m)"
    by (simp add: mesh_in_sync_def)
  show ?thesis
  proof (cases "node \<in> set (nodes m)")
    case True
    with in_sync_remove [OF n True] assms show ?thesis
      by (simp add: remove_node_def Container_remove_def mesh_in_sync_def Let_def)
  next
    case False
    then show ?thesis using assms by (simp add: remove_node_def Container_remove_def Let_def)
  qed
qed

lemma remove_cell_in_sync:
  assumes "mesh_in_sync m"
  shows "mesh_in_sync (snd (remove_cell m cell))"
proof -
  from assms have n: "in_sync (\<lambda>a. c_id (cell_heap m a)) (cells m) (map_cells m)"
    by (simp add: mesh_in_sync_def)
  show ?thesis
  proof (cases "cell \<in> set (cells m)")
    case True
    with in_sync_remove [OF n True] assms show ?thesis
      by (simp add: remove_cell_def Container_remove_def mesh_in_sync_def Let_def)
  next
    case False
    then show ?thesis using assms by (simp add: remove_cell_def Container_remove_def Let_def)
  qed
qed


lemma same_entities_refl [simp]: "same_entities m m"
  by (simp add: same_entities_def)

lemma same_entities_trans:
  "same_entities m m' \<Longrightarrow> same_entities m' m'' \<Longrightarrow> same_entities m m''"
  by (simp add: same_entities_def)

lemma same_entities_in_sync:
  "same_entities m m' \<Longrightarrow> mesh_in_sync m' = mesh_in_sync m"
  by (simp add: same_entities_def mesh_in_sync_def in_sync_def)

lemma same_entities_Particle_update:
  "(\<And>p. p_id (f p) = p_id p) \<Longrightarrow> same_entities m (Particle_update m a f)"
  by (simp add: same_entities_def Particle_update_def)

lemma same_entities_assign_cell [simp]: "same_entities m (assign_cell m a c)"
  unfolding assign_cell_def by (rule same_entities_Particle_update) simp

lemma same_entities_assign_cell_xi [simp]: "same_entities m (assign_cell_xi m a c x)"
  unfolding assign_cell_xi_def by (rule same_entities_Particle_update) simp

lemma same_entities_remove_cell [simp]: "same_entities m (Particle_remove_cell m a)"
  unfolding Particle_remove_cell_def by (rule same_entities_Particle_update) simp

lemma same_entities_compute_reference_location [simp]:
  "same_entities m (snd (compute_reference_location m a))"
  by (auto simp: compute_reference_location_def split: option.splits
           intro: same_entities_Particle_update)

lemma same_entities_scan_all_cells [simp]: "same_entities m (snd (scan_all_cells m a))"
  by (simp add: scan_all_cells_def Let_def split: option.splits)

lemma same_entities_scan_step:
  "same_entities m t \<Longrightarrow> same_entities m (snd (scan_all_cells t a))"
  by (erule same_entities_trans) simp

lemma same_entities_assign_step:
  "same_entities m t \<Longrightarrow> same_entities m (assign_cell_xi t a c x)"
  by (erule same_entities_trans) simp

lemma same_entities_reference_step:
  "same_entities m t \<Longrightarrow> compute_reference_location t a = (b, t') \<Longrightarrow> same_entities m t'"
  using same_entities_compute_reference_location [of t a]
  by (auto elim: same_entities_trans)

lemma same_entities_locate_particle_cells [simp]:
  "same_entities m (snd (locate_particle_cells m a))"
  unfolding locate_particle_cells_def Let_def
  by (auto split: sum.splits prod.splits bool.splits option.splits
           intro!: same_entities_scan_step same_entities_assign_step
           intro: same_entities_reference_step [OF same_entities_assign_cell]
                  same_entities_reference_step [OF same_entities_refl])


lemma catch_exception_same_entities [simp]: "same_entities (snd r) (snd (catch_exception r))"
  by (cases r; cases "fst r") (auto simp: catch_exception_def same_entities_def)

lemma Map_insert_present:
  "in_sync idf xs mp \<Longrightarrow> idf p \<in> idf ` set xs \<Longrightarrow> Map_insert mp (idf p) p = (False, mp)"
  using in_sync_keys [of idf xs mp] by (simp add: Map_insert_def)

lemma add_particle_insert_in_sync:
  assumes "mesh_in_sync m"
  shows "mesh_in_sync (snd (add_particle_insert m a True))"
proof -
  let ?idf = "\<lambda>b. p_id (particle_heap m b)"
  from assms have n: "in_sync ?idf (particles m) (map_particles m)"
    by (simp add: mesh_in_sync_def)
  show ?thesis
  proof (cases "?idf a \<in> ?idf ` set (particles m)")
    case True
    with Map_insert_present [OF n True] assms show ?thesis
      by (simp add: add_particle_insert_def Container_add_def mesh_in_sync_def Let_def)
  next
    case False
    with in_sync_add [OF n, of a] assms show ?thesis
      by (simp add: add_particle_insert_def Container_add_def mesh_in_sync_def Let_def)
  qed
qed

lemma add_particle_in_sync:
  assumes "mesh_in_sync m"
  shows "mesh_in_sync (snd (add_particle m a True))"
proof -
  obtain r m1 where l: "locate_particle_cells m a = (r, m1)" by (cases "locate_particle_cells m a")
  with same_entities_locate_particle_cells [of m a] have "same_entities m m1" by simp
  with assms have s1: "mesh_in_sync m1" by (simp add: same_entities_in_sync)
  then have s2: "mesh_in_sync (snd (add_particle_insert m1 a True))"
    by (rule add_particle_insert_in_sync)
  have "mesh_in_sync (snd (catch_exception t)) = mesh_in_sync (snd t)" for t :: "(bool, 'a, 'b) outcome"
    using catch_exception_same_entities [of t] by (rule same_entities_in_sync)
  then show ?thesis
    using l s1 s2 by (auto simp: add_particle_def split: sum.splits bool.splits)
qed

lemma Particle_remove_cell_nodes [simp]:
  "nodes (Particle_remove_cell m a) = nodes m"
  "map_nodes (Particle_remove_cell m a) = map_nodes m"
  "node_heap (Particle_remove_cell m a) = node_heap m"
  by (simp_all add: Particle_remove_cell_def)

lemma remove_particle_in_sync:
  assumes "mesh_in_sync m"
  shows "mesh_in_sync (snd (remove_particle m a))"
proof (cases "Map_at (map_particles m) (p_id (particle_heap m a))")
  case (Inl e)
  then show ?thesis using assms by (simp add: remove_particle_def)
next
  case (Inr q)
  let ?idf = "\<lambda>b. p_id (particle_heap m b)"
  from assms have n: "in_sync ?idf (particles m) (map_particles m)"
    by (simp add: mesh_in_sync_def)
  show ?thesis
  proof (cases "a \<in> set (particles m)")
    case True
    with in_sync_remove [OF n True] assms Inr show ?thesis
      by (simp add: remove_particle_def Let_def Container_remove_def mesh_in_sync_def)
  next
    case False
    with assms Inr show ?thesis
      by (simp add: remove_particle_def Let_def Container_remove_def mesh_in_sync_def)
  qed
qed

lemma apply_op_in_sync:
  "mesh_in_sync m \<Longrightarrow> duplicate_checked op \<Longrightarrow> mesh_in_sync (snd (apply_op m op))"
  by (cases op)
     (simp_all add: add_node_in_sync remove_node_in_sync add_cell_in_sync remove_cell_in_sync
        add_particle_in_sync remove_particle_in_sync)

lemma run_ops_in_sync:
  "mesh_in_sync m \<Longrightarrow> \<forall>op \<in> set ops. duplicate_checked op \<Longrightarrow> mesh_in_sync (run_ops m ops)"
  unfolding run_ops_def
  by (induction ops arbitrary: m) (simp_all add: apply_op_in_sync)

lemma add_particle_duplicate:
  assumes "mesh_in_sync m"
    and dup: "p_id (particle_heap m a) \<in> (\<lambda>b. p_id (particle_heap m b)) ` set (particles m)"
  shows "fst (add_particle m a True) = Inr False \<and>
         particles (snd (add_particle m a True)) = particles m \<and>
         map_particles (snd (add_particle m a True)) = map_particles m"
proof -
  obtain r m1 where l: "locate_particle_cells m a = (r, m1)" by (cases "locate_particle_cells m a")
  with same_entities_locate_particle_cells [of m a] have se: "same_entities m m1" by simp
  with assms(1) have "mesh_in_sync m1" by (simp add: same_entities_in_sync)
  then have n: "in_sync (\<lambda>b. p_id (particle_heap m1 b)) (particles m1) (map_particles m1)"
    by (simp add: mesh_in_sync_def)
  from dup se have d1: "p_id (particle_heap m1 a) \<in> (\<lambda>b. p_id (particle_heap m1 b)) ` set (particles m1)"
    by (simp add: same_entities_def)
  have ins: "fst (add_particle_insert m1 a True) = Inl (RuntimeError ''Particle addition failed'') \<and>
      particles (snd (add_particle_insert m1 a True)) = particles m1 \<and>
      map_particles (snd (add_particle_insert m1 a True)) = map_particles m1"
    using d1 Map_insert_present [OF n d1]
    by (simp add: add_particle_insert_def Container_add_def Let_def)
  have pm: "particles m1 = particles m" "map_particles m1 = map_particles m"
    using se by (simp_all add: same_entities_def)
  obtain x t where ai: "add_particle_insert m1 a True = (x, t)" by (cases "add_particle_insert m1 a True")
  with ins have "x = Inl (RuntimeError ''Particle addition failed'')" "particles t = particles m"
      "map_particles t = map_particles m"
    using pm by simp_all
  then show ?thesis
    using l ai pm
    by (cases r) (auto simp: add_particle_def catch_exception_def split: bool.splits)
qed


lemma line_mesh_in_sync: "mesh_in_sync line_mesh"
  by (simp add: mesh_in_sync_def in_sync_def line_defs)

text \<open>
  C2, as the code has it. Starting from a mesh whose three containers are in sync with
  their maps, after any sequence of \<^verbatim>\<open>add_node\<close>, \<^verbatim>\<open>add_cell\<close>, \<^verbatim>\<open>add_particle\<close> with
  duplicate checking and of \<^verbatim>\<open>remove_node\<close>, \<^verbatim>\<open>remove_cell\<close>, \<^verbatim>\<open>remove_particle\<close>, every
  container and its map have equal size and the same members. Adding a node, a cell or a
  particle whose id is already present, with duplicate checking, fails and changes
  neither the container nor the map. Removing a node or a cell that is not in the
  container returns false and changes nothing.
\<close>

theorem add_remove_keep_in_sync:
  "(mesh_in_sync m \<and> (\<forall>op \<in> set ops. duplicate_checked op) \<longrightarrow>
      mesh_in_sync (run_ops m ops)) \<and>
   (n_id (node_heap m node) \<in> (\<lambda>a. n_id (node_heap m a)) ` set (nodes m) \<longrightarrow>
      add_node m node True = (Inr False, m)) \<and>
   (c_id (cell_heap m cell) \<in> (\<lambda>a. c_id (cell_heap m a)) ` set (cells m) \<longrightarrow>
      add_cell m cell True = (Inr False, m)) \<and>
   (mesh_in_sync m \<and>
    p_id (particle_heap m particle) \<in> (\<lambda>a. p_id (particle_heap m a)) ` set (particles m) \<longrightarrow>
      fst (add_particle m particle True) = Inr False \<and>
      particles (snd (add_particle m particle True)) = particles m \<and>
      map_particles (snd (add_particle m particle True)) = map_particles m) \<and>
   (node \<notin> set (nodes m) \<longrightarrow> remove_node m node = (Inr False, m)) \<and>
   (cell \<notin> set (cells m) \<longrightarrow> remove_cell m cell = (Inr False, m))"
proof -
  have a: "mesh_in_sync m \<and> (\<forall>op \<in> set ops. duplicate_checked op) \<longrightarrow>
      mesh_in_sync (run_ops m ops)"
    using run_ops_in_sync by blast
  have b: "n_id (node_heap m node) \<in> (\<lambda>a. n_id (node_heap m a)) ` set (nodes m) \<longrightarrow>
      add_node m node True = (Inr False, m)"
    by (simp add: add_node_def Container_add_def)
  have c: "c_id (cell_heap m cell) \<in> (\<lambda>a. c_id (cell_heap m a)) ` set (cells m) \<longrightarrow>
      add_cell m cell True = (Inr False, m)"
    by (simp add: add_cell_def Container_add_def)
  have d: "mesh_in_sync m \<and>
    p_id (particle_heap m particle) \<in> (\<lambda>a. p_id (particle_heap m a)) ` set (particles m) \<longrightarrow>
      fst (add_particle m particle True) = Inr False \<and>
      particles (snd (add_particle m particle True)) = particles m \<and>
      map_particles (snd (add_particle m particle True)) = map_particles m"
    using add_particle_duplicate by blast
  have e: "node \<notin> set (nodes m) \<longrightarrow> remove_node m node = (Inr False, m)"
    by (simp add: remove_node_def Container_remove_def Let_def)
  have f: "cell \<notin> set (cells m) \<longrightarrow> remove_cell m cell = (Inr False, m)"
    by (simp add: remove_cell_def Container_remove_def Let_def)
  from a b c d e f show ?thesis by blast
qed

theorem add_remove_keep_in_sync_witness:
  "mesh_in_sync line_mesh \<and>
   mesh_in_sync (run_ops line_mesh [AddNode 3 True, RemoveNode 1, AddCell 2 True, RemoveParticle 15]) \<and>
   nodes (run_ops line_mesh [AddNode 3 True, RemoveNode 1, AddCell 2 True, RemoveParticle 15]) = [0, 2, 3] \<and>
   map_nodes (run_ops line_mesh [AddNode 3 True, RemoveNode 1, AddCell 2 True, RemoveParticle 15])
     = [(0, 0), (2, 2), (3, 3)] \<and>
   add_node line_mesh 0 True = (Inr False, line_mesh) \<and>
   add_cell line_mesh 1 True = (Inr False, line_mesh) \<and>
   fst (add_particle line_mesh 5 True) = Inr False \<and>
   map_particles (snd (add_particle line_mesh 5 True)) = [(5, 5), (15, 15), (25, 25)] \<and>
   remove_node line_mesh 7 = (Inr False, line_mesh) \<and>
   remove_cell line_mesh 7 = (Inr False, line_mesh)"
proof -
  have ops: "\<forall>op \<in> set [AddNode 3 True, RemoveNode 1, AddCell 2 True, RemoveParticle 15].
               duplicate_checked op"
    by simp
  have h1: "n_id (node_heap line_mesh 0) \<in> (\<lambda>a. n_id (node_heap line_mesh a)) ` set (nodes line_mesh)"
    by (simp add: line_defs)
  have h2: "c_id (cell_heap line_mesh 1) \<in> (\<lambda>a. c_id (cell_heap line_mesh a)) ` set (cells line_mesh)"
    by (simp add: line_defs)
  have h3: "p_id (particle_heap line_mesh 5)
              \<in> (\<lambda>a. p_id (particle_heap line_mesh a)) ` set (particles line_mesh)"
    by (simp add: line_defs)
  have h4: "7 \<notin> set (nodes line_mesh)" "7 \<notin> set (cells line_mesh)"
    by (simp_all add: line_defs)
  have n: "nodes (run_ops line_mesh [AddNode 3 True, RemoveNode 1, AddCell 2 True, RemoveParticle 15]) = [0, 2, 3]"
    "map_nodes (run_ops line_mesh [AddNode 3 True, RemoveNode 1, AddCell 2 True, RemoveParticle 15])
       = [(0, 0), (2, 2), (3, 3)]"
    by (simp_all add: run_ops_def add_node_def remove_node_def add_cell_def remove_particle_def
          Container_add_def Container_remove_def Map_insert_def Map_remove_def Map_at_def
          Let_def line_defs)
  from add_remove_keep_in_sync
         [of line_mesh "[AddNode 3 True, RemoveNode 1, AddCell 2 True, RemoveParticle 15]"
             0 1 5]
       add_remove_keep_in_sync [of line_mesh "[]" 7 7 5]
       line_mesh_in_sync ops h1 h2 h3 h4 n
  show ?thesis
    by (simp add: line_defs)
qed

text \<open>
  C2 as stated covers every sequence of operations. Without duplicate checking the
  container takes a second entry for an id that the map already holds: adding node 0 to
  the example mesh again leaves four entries in the container and three in the map.
\<close>

theorem add_without_duplicate_check_out_of_sync:
  "mesh_in_sync line_mesh \<and>
   length (nodes (run_ops line_mesh [AddNode 0 False])) = 4 \<and>
   length (map_nodes (run_ops line_mesh [AddNode 0 False])) = 3 \<and>
   \<not> mesh_in_sync (run_ops line_mesh [AddNode 0 False])"
  using line_mesh_in_sync
  by (simp add: run_ops_def add_node_def Container_add_def Map_insert_def
        mesh_in_sync_def in_sync_def line_defs)

subsection \<open>Domain-shared nodes: the two rank loops and the loop over the nodes\<close>

lemma Node_update_fields [simp]:
  "particles (Node_update m a f) = particles m"
  "particles_cell_ids (Node_update m a f) = particles_cell_ids m"
  "particle_sets (Node_update m a f) = particle_sets m"
  "map_particles (Node_update m a f) = map_particles m"
  "nodes (Node_update m a f) = nodes m"
  "domain_shared_nodes (Node_update m a f) = domain_shared_nodes m"
  "map_nodes (Node_update m a f) = map_nodes m"
  "map_cells (Node_update m a f) = map_cells m"
  "cells (Node_update m a f) = cells m"
  "particle_tractions (Node_update m a f) = particle_tractions m"
  "particle_velocity_constraints (Node_update m a f) = particle_velocity_constraints m"
  "console (Node_update m a f) = console m"
  "nhalo_nodes (Node_update m a f) = nhalo_nodes m"
  "ncomms (Node_update m a f) = ncomms m"
  "particle_heap (Node_update m a f) = particle_heap m"
  "cell_heap (Node_update m a f) = cell_heap m"
  "node_heap (Node_update m a f) = (node_heap m)(a := f (node_heap m a))"
  by (simp_all add: Node_update_def)

lemma clear_all_heap:
  "foldl clear_mpi_ranks m xs =
     m\<lparr>node_heap := (\<lambda>a. if a \<in> set xs then (node_heap m a)\<lparr>n_mpi_ranks := {}\<rparr> else node_heap m a)\<rparr>"
proof (induction xs arbitrary: m)
  case Nil
  then show ?case by simp
next
  case (Cons x xs)
  let ?m1 = "clear_mpi_ranks m x"
  have "foldl clear_mpi_ranks m (x # xs) = foldl clear_mpi_ranks ?m1 xs"
    by simp
  also have "\<dots> = ?m1\<lparr>node_heap :=
      (\<lambda>a. if a \<in> set xs then (node_heap ?m1 a)\<lparr>n_mpi_ranks := {}\<rparr> else node_heap ?m1 a)\<rparr>"
    by (rule Cons)
  also have "\<dots> = m\<lparr>node_heap :=
      (\<lambda>a. if a \<in> set (x # xs) then (node_heap m a)\<lparr>n_mpi_ranks := {}\<rparr> else node_heap m a)\<rparr>"
    by (simp add: clear_mpi_ranks_def Node_update_def fun_eq_iff)
  finally show ?case .
qed

lemma assign_nodes_heap:
  "foldl (\<lambda>t node. Node_update t node (\<lambda>x. x\<lparr>n_mpi_ranks := insert r (n_mpi_ranks x)\<rparr>)) m ns =
     m\<lparr>node_heap := (\<lambda>a. if a \<in> set ns
                           then (node_heap m a)\<lparr>n_mpi_ranks := insert r (n_mpi_ranks (node_heap m a))\<rparr>
                           else node_heap m a)\<rparr>"
proof (induction ns arbitrary: m)
  case Nil
  then show ?case by simp
next
  case (Cons x xs)
  let ?f = "\<lambda>t node. Node_update t node (\<lambda>x. x\<lparr>n_mpi_ranks := insert r (n_mpi_ranks x)\<rparr>)"
  let ?m1 = "?f m x"
  have "foldl ?f m (x # xs) = foldl ?f ?m1 xs"
    by simp
  also have "\<dots> = ?m1\<lparr>node_heap :=
      (\<lambda>a. if a \<in> set xs
           then (node_heap ?m1 a)\<lparr>n_mpi_ranks := insert r (n_mpi_ranks (node_heap ?m1 a))\<rparr>
           else node_heap ?m1 a)\<rparr>"
    by (rule Cons)
  also have "\<dots> = m\<lparr>node_heap := (\<lambda>a. if a \<in> set (x # xs)
                           then (node_heap m a)\<lparr>n_mpi_ranks := insert r (n_mpi_ranks (node_heap m a))\<rparr>
                           else node_heap m a)\<rparr>"
    by (simp add: Node_update_def fun_eq_iff)
  finally show ?case .
qed

lemma assign_cell_heap:
  "assign_mpi_rank_to_nodes m c =
     m\<lparr>node_heap := (\<lambda>a. if a \<in> set (c_nodes (cell_heap m c))
                           then (node_heap m a)\<lparr>n_mpi_ranks :=
                                  insert (c_rank (cell_heap m c)) (n_mpi_ranks (node_heap m a))\<rparr>
                           else node_heap m a)\<rparr>"
  unfolding assign_mpi_rank_to_nodes_def by (rule assign_nodes_heap)

lemma assign_all_heap:
  "foldl assign_mpi_rank_to_nodes m cs =
     m\<lparr>node_heap := (\<lambda>a. (node_heap m a)\<lparr>n_mpi_ranks :=
          n_mpi_ranks (node_heap m a) \<union>
          set (map (\<lambda>c. c_rank (cell_heap m c))
                 (filter (\<lambda>c. a \<in> set (c_nodes (cell_heap m c))) cs))\<rparr>)\<rparr>"
proof (induction cs arbitrary: m)
  case Nil
  then show ?case by simp
next
  case (Cons c cs)
  let ?m1 = "assign_mpi_rank_to_nodes m c"
  have "foldl assign_mpi_rank_to_nodes m (c # cs) = foldl assign_mpi_rank_to_nodes ?m1 cs"
    by simp
  also have "\<dots> = ?m1\<lparr>node_heap := (\<lambda>a. (node_heap ?m1 a)\<lparr>n_mpi_ranks :=
          n_mpi_ranks (node_heap ?m1 a) \<union>
          set (map (\<lambda>c. c_rank (cell_heap ?m1 c))
                 (filter (\<lambda>c. a \<in> set (c_nodes (cell_heap ?m1 c))) cs))\<rparr>)\<rparr>"
    by (rule Cons)
  also have "\<dots> = m\<lparr>node_heap := (\<lambda>a. (node_heap m a)\<lparr>n_mpi_ranks :=
          n_mpi_ranks (node_heap m a) \<union>
          set (map (\<lambda>c. c_rank (cell_heap m c))
                 (filter (\<lambda>c. a \<in> set (c_nodes (cell_heap m c))) (c # cs)))\<rparr>)\<rparr>"
    by (simp add: assign_cell_heap fun_eq_iff)
  finally show ?case .
qed


lemma rank_phase_heap:
  "foldl assign_mpi_rank_to_nodes (foldl clear_mpi_ranks m (nodes m))
     (cells (foldl clear_mpi_ranks m (nodes m))) =
   m\<lparr>node_heap := (\<lambda>a. (node_heap m a)\<lparr>n_mpi_ranks :=
        (if a \<in> set (nodes m) then {} else n_mpi_ranks (node_heap m a)) \<union> touching_ranks m a\<rparr>)\<rparr>"
  by (simp add: clear_all_heap assign_all_heap touching_ranks_def fun_eq_iff)

lemma same_but_ghost_refl [simp]: "same_but_ghost t t"
  by (simp add: same_but_ghost_def)

lemma same_but_ghost_trans:
  "same_but_ghost t u \<Longrightarrow> same_but_ghost u v \<Longrightarrow> same_but_ghost t v"
  by (simp add: same_but_ghost_def)

lemma shared_node_step_frame [simp]:
  "particles (shared_node_step h r t a) = particles t"
  "particles_cell_ids (shared_node_step h r t a) = particles_cell_ids t"
  "particle_sets (shared_node_step h r t a) = particle_sets t"
  "map_particles (shared_node_step h r t a) = map_particles t"
  "nodes (shared_node_step h r t a) = nodes t"
  "map_nodes (shared_node_step h r t a) = map_nodes t"
  "map_cells (shared_node_step h r t a) = map_cells t"
  "cells (shared_node_step h r t a) = cells t"
  "particle_tractions (shared_node_step h r t a) = particle_tractions t"
  "particle_velocity_constraints (shared_node_step h r t a) = particle_velocity_constraints t"
  "console (shared_node_step h r t a) = console t"
  "particle_heap (shared_node_step h r t a) = particle_heap t"
  "cell_heap (shared_node_step h r t a) = cell_heap t"
  by (simp_all add: shared_node_step_def Let_def)

lemma shared_node_step_node [simp]:
  "n_id (node_heap (shared_node_step h r t a) b) = n_id (node_heap t b)"
  "n_mpi_ranks (node_heap (shared_node_step h r t a) b) = n_mpi_ranks (node_heap t b)"
  by (simp_all add: shared_node_step_def Let_def)

lemma shared_node_step_ghost:
  "n_ghost_id (node_heap (shared_node_step h r t a) b) =
     (if b = a \<and> writes_ghost h r t a then (if h then ncomms t else nhalo_nodes t)
      else n_ghost_id (node_heap t b))"
  by (simp add: shared_node_step_def writes_ghost_def Let_def)

lemma shared_node_step_counters:
  "nhalo_nodes (shared_node_step h r t a) =
     (if \<not> h \<and> writes_ghost h r t a then nhalo_nodes t + 1 else nhalo_nodes t)"
  "ncomms (shared_node_step h r t a) =
     (if h \<and> writes_ghost h r t a
      then ncomms t + (word_of_nat (card (n_mpi_ranks (node_heap t a))) - 1) else ncomms t)"
  by (simp_all add: shared_node_step_def writes_ghost_def Let_def)

lemma shared_node_step_shared:
  "domain_shared_nodes (shared_node_step h r t a) =
     (if writes_ghost h r t a \<and> r \<in> n_mpi_ranks (node_heap t a)
      then snd (Container_add (\<lambda>b. n_id (node_heap t b)) (domain_shared_nodes t) a True)
      else domain_shared_nodes t)"
proof -
  have "(\<lambda>b. n_id (if b = a then x\<lparr>n_ghost_id := g\<rparr> else node_heap t b)) ` S
          = (\<lambda>b. n_id (node_heap t b)) ` S" if "n_id x = n_id (node_heap t a)" for x g S
    using that by (auto simp: image_iff)
  then show ?thesis
    by (simp add: shared_node_step_def writes_ghost_def Let_def Container_add_def)
qed

lemma writes_ghost_equiv: "halo_equiv t u \<Longrightarrow> writes_ghost h r u a = writes_ghost h r t a"
  by (simp add: writes_ghost_def halo_equiv_def same_but_ghost_def)

lemma shared_node_step_same: "same_but_ghost t (shared_node_step h r t a)"
  by (simp add: same_but_ghost_def)

lemma shared_node_step_equiv:
  assumes "halo_equiv t u"
  shows "halo_equiv (shared_node_step h r t a) (shared_node_step h r u a)"
proof -
  from assms have r: "n_mpi_ranks (node_heap u a) = n_mpi_ranks (node_heap t a)"
    and i: "(\<lambda>b. n_id (node_heap u b)) = (\<lambda>b. n_id (node_heap t b))"
    and d: "domain_shared_nodes u = domain_shared_nodes t"
    and c: "nhalo_nodes u = nhalo_nodes t" "ncomms u = ncomms t"
    and s: "same_but_ghost t u"
    by (simp_all add: halo_equiv_def same_but_ghost_def)
  have w: "writes_ghost h r u a = writes_ghost h r t a"
    using assms by (rule writes_ghost_equiv)
  have 1: "same_but_ghost (shared_node_step h r t a) (shared_node_step h r u a)"
    using s by (simp add: same_but_ghost_def)
  have 2: "domain_shared_nodes (shared_node_step h r u a) = domain_shared_nodes (shared_node_step h r t a)"
    by (simp only: shared_node_step_shared w r i d)
  have 3: "nhalo_nodes (shared_node_step h r u a) = nhalo_nodes (shared_node_step h r t a)"
    "ncomms (shared_node_step h r u a) = ncomms (shared_node_step h r t a)"
    by (simp_all only: shared_node_step_counters w r c)
  from 1 2 3 show ?thesis by (simp add: halo_equiv_def)
qed


lemma shared_fold_same: "same_but_ghost t (foldl (shared_node_step h r) t xs)"
proof (induction xs arbitrary: t)
  case Nil
  then show ?case by simp
next
  case (Cons a xs)
  from shared_node_step_same [of t h r a] Cons [of "shared_node_step h r t a"]
  show ?case by (auto intro: same_but_ghost_trans)
qed

lemma shared_fold_other_counter:
  "h \<Longrightarrow> nhalo_nodes (foldl (shared_node_step h r) t xs) = nhalo_nodes t"
  "\<not> h \<Longrightarrow> ncomms (foldl (shared_node_step h r) t xs) = ncomms t"
  by (induction xs arbitrary: t) (simp_all add: shared_node_step_counters)

lemma shared_fold_equiv:
  assumes "halo_equiv t u"
  shows "halo_equiv (foldl (shared_node_step h r) t xs) (foldl (shared_node_step h r) u xs) \<and>
         (\<forall>b. n_ghost_id (node_heap (foldl (shared_node_step h r) u xs) b)
                = n_ghost_id (node_heap (foldl (shared_node_step h r) t xs) b) \<or>
              n_ghost_id (node_heap (foldl (shared_node_step h r) u xs) b) = n_ghost_id (node_heap u b) \<and>
              n_ghost_id (node_heap (foldl (shared_node_step h r) t xs) b) = n_ghost_id (node_heap t b))"
  using assms
proof (induction xs arbitrary: t u)
  case Nil
  then show ?case by simp
next
  case (Cons a xs)
  let ?t = "shared_node_step h r t a" and ?u = "shared_node_step h r u a"
  from Cons.prems have e: "halo_equiv ?t ?u" by (rule shared_node_step_equiv)
  from Cons.prems have w: "writes_ghost h r u a = writes_ghost h r t a"
    by (rule writes_ghost_equiv)
  from Cons.prems have c: "nhalo_nodes u = nhalo_nodes t" "ncomms u = ncomms t"
    by (simp_all add: halo_equiv_def)
  note ih = Cons.IH [OF e]
  have g: "n_ghost_id (node_heap ?u b) = n_ghost_id (node_heap ?t b) \<or>
           n_ghost_id (node_heap ?u b) = n_ghost_id (node_heap u b) \<and>
           n_ghost_id (node_heap ?t b) = n_ghost_id (node_heap t b)" for b
    by (simp add: shared_node_step_ghost w c)
  from ih g show ?case
    by (simp del: foldl_Cons add: foldl_Cons [of "shared_node_step h r"]) metis
qed


lemma find_domain_shared_nodes_start:
  "find_domain_shared_nodes h r m = foldl (shared_node_step h r) (halo_start h m) (nodes m)"
  by (simp add: find_domain_shared_nodes_def halo_start_def Let_def rank_phase_heap)

lemma halo_equiv_eq:
  assumes "halo_equiv t u" and "\<And>b. n_ghost_id (node_heap u b) = n_ghost_id (node_heap t b)"
  shows "u = t"
proof -
  have "node_heap u b = node_heap t b" for b
    using assms by (intro Node.equality) (simp_all add: halo_equiv_def same_but_ghost_def)
  then have "node_heap u = node_heap t" by (simp add: fun_eq_iff)
  with assms(1) show ?thesis
    by (intro Mesh.equality) (simp_all add: halo_equiv_def same_but_ghost_def)
qed

lemma touching_ranks_same: "same_but_ghost t u \<Longrightarrow> touching_ranks u a = touching_ranks t a"
  by (simp add: touching_ranks_def same_but_ghost_def)

lemma halo_start_fields [simp]:
  "particles (halo_start h m) = particles m"
  "particles_cell_ids (halo_start h m) = particles_cell_ids m"
  "particle_sets (halo_start h m) = particle_sets m"
  "map_particles (halo_start h m) = map_particles m"
  "nodes (halo_start h m) = nodes m"
  "map_nodes (halo_start h m) = map_nodes m"
  "map_cells (halo_start h m) = map_cells m"
  "cells (halo_start h m) = cells m"
  "particle_tractions (halo_start h m) = particle_tractions m"
  "particle_velocity_constraints (halo_start h m) = particle_velocity_constraints m"
  "console (halo_start h m) = console m"
  "particle_heap (halo_start h m) = particle_heap m"
  "cell_heap (halo_start h m) = cell_heap m"
  "domain_shared_nodes (halo_start h m) = []"
  "nhalo_nodes (halo_start h m) = (if h then nhalo_nodes m else 0)"
  "ncomms (halo_start h m) = (if h then 0 else ncomms m)"
  "n_id (node_heap (halo_start h m) a) = n_id (node_heap m a)"
  "n_ghost_id (node_heap (halo_start h m) a) = n_ghost_id (node_heap m a)"
  "n_mpi_ranks (node_heap (halo_start h m) a) =
     (if a \<in> set (nodes m) then {} else n_mpi_ranks (node_heap m a)) \<union> touching_ranks m a"
  by (simp_all add: halo_start_def Let_def)

lemma touching_ranks_halo_start [simp]: "touching_ranks (halo_start h m) a = touching_ranks m a"
  by (simp add: touching_ranks_def)

lemma halo_start_again:
  assumes f: "f = foldl (shared_node_step h r) (halo_start h m) (nodes m)"
  shows "halo_equiv (halo_start h m) (halo_start h f) \<and>
         (\<forall>b. n_ghost_id (node_heap (halo_start h f) b) = n_ghost_id (node_heap f b))"
proof -
  let ?t = "halo_start h m"
  have s: "same_but_ghost ?t f" unfolding f by (rule shared_fold_same)
  have tr: "touching_ranks f a = touching_ranks m a" for a
    using touching_ranks_same [OF s] by simp
  have nd: "nodes f = nodes m"
    using s by (simp add: same_but_ghost_def)
  have rk: "n_mpi_ranks (node_heap f a) =
      (if a \<in> set (nodes m) then {} else n_mpi_ranks (node_heap m a)) \<union> touching_ranks m a" for a
    using s by (simp add: same_but_ghost_def)
  have oc: "h \<Longrightarrow> nhalo_nodes f = nhalo_nodes m" "\<not> h \<Longrightarrow> ncomms f = ncomms m"
    unfolding f by (simp_all add: shared_fold_other_counter)
  have rk2: "n_mpi_ranks (node_heap (halo_start h f) a) = n_mpi_ranks (node_heap ?t a)" for a
    by (auto simp: tr nd rk)
  have 1: "same_but_ghost ?t (halo_start h f)"
    unfolding same_but_ghost_def
    using s by (simp add: same_but_ghost_def rk2 del: halo_start_fields(19))
  have 3: "nhalo_nodes (halo_start h f) = nhalo_nodes ?t" "ncomms (halo_start h f) = ncomms ?t"
    using oc by simp_all
  from 1 3 show ?thesis by (simp add: halo_equiv_def)
qed

text \<open>
  C5. Calling \<^verbatim>\<open>find_domain_shared_nodes\<close> twice in a row, with nothing changed in
  between, gives the mesh of the first call: the container of domain-shared nodes, the
  ghost id and the ranks of every node and the counters are the same. This holds in
  both builds and for every rank.
\<close>

theorem find_domain_shared_nodes_idempotent:
  "find_domain_shared_nodes use_halo_exchange mpi_rank
     (find_domain_shared_nodes use_halo_exchange mpi_rank m)
   = find_domain_shared_nodes use_halo_exchange mpi_rank m"
proof -
  let ?h = use_halo_exchange and ?r = mpi_rank
  define f where "f = foldl (shared_node_step ?h ?r) (halo_start ?h m) (nodes m)"
  have ff: "find_domain_shared_nodes ?h ?r m = f"
    by (simp add: f_def find_domain_shared_nodes_start)
  have s: "same_but_ghost (halo_start ?h m) f" unfolding f_def by (rule shared_fold_same)
  then have nd: "nodes f = nodes m"
    by (simp add: same_but_ghost_def)
  from halo_start_again [OF f_def] have e: "halo_equiv (halo_start ?h m) (halo_start ?h f)"
    and g: "\<And>b. n_ghost_id (node_heap (halo_start ?h f) b) = n_ghost_id (node_heap f b)"
    by simp_all
  let ?f2 = "foldl (shared_node_step ?h ?r) (halo_start ?h f) (nodes m)"
  from shared_fold_equiv [OF e, of ?h ?r "nodes m"]
  have e2: "halo_equiv f ?f2"
    and g2: "\<And>b. n_ghost_id (node_heap ?f2 b) = n_ghost_id (node_heap f b) \<or>
              n_ghost_id (node_heap ?f2 b) = n_ghost_id (node_heap (halo_start ?h f) b) \<and>
              n_ghost_id (node_heap f b) = n_ghost_id (node_heap (halo_start ?h m) b)"
    unfolding f_def by blast+
  have "n_ghost_id (node_heap ?f2 b) = n_ghost_id (node_heap f b)" for b
    using g2 [of b] g [of b] by auto
  with e2 have "?f2 = f" by (rule halo_equiv_eq)
  then show ?thesis
    by (simp add: ff find_domain_shared_nodes_start [of ?h ?r f] nd)
qed

subsection \<open>Domain-shared nodes: membership and ghost ids\<close>

lemmas chain_defs = chain_mesh_def line_defs

lemma writes_ghost_step [simp]:
  "writes_ghost h r (shared_node_step h' r' t a) b = writes_ghost h r t b"
  by (simp add: writes_ghost_def)

lemma shared_fold_node [simp]:
  "n_id (node_heap (foldl (shared_node_step h r) t xs) b) = n_id (node_heap t b)"
  "n_mpi_ranks (node_heap (foldl (shared_node_step h r) t xs) b) = n_mpi_ranks (node_heap t b)"
  using shared_fold_same [of t h r xs] by (simp_all add: same_but_ghost_def)

lemma shared_fold_count:
  "nhalo_nodes (foldl (shared_node_step False r) t xs) =
     nhalo_nodes t + word_of_nat (length (filter (writes_ghost False r t) xs))"
proof (induction xs arbitrary: t)
  case Nil
  then show ?case by simp
next
  case (Cons a xs)
  show ?case
    by (simp add: Cons shared_node_step_counters)
qed

lemma shared_fold_untouched:
  "b \<notin> set xs \<Longrightarrow>
   n_ghost_id (node_heap (foldl (shared_node_step h r) t xs) b) = n_ghost_id (node_heap t b)"
  by (induction xs arbitrary: t) (simp_all add: shared_node_step_ghost)

lemma shared_fold_ghost:
  assumes "distinct xs" and "i < length xs" and "writes_ghost False r t (xs ! i)"
  shows "n_ghost_id (node_heap (foldl (shared_node_step False r) t xs) (xs ! i)) =
           nhalo_nodes t + word_of_nat (length (filter (writes_ghost False r t) (take i xs)))"
  using assms
proof (induction xs arbitrary: t i)
  case Nil
  then show ?case by simp
next
  case (Cons a xs)
  show ?case
  proof (cases i)
    case 0
    with Cons.prems show ?thesis
      by (simp add: shared_fold_untouched shared_node_step_ghost)
  next
    case (Suc j)
    with Cons.prems have j: "j < length xs" "distinct xs"
      "writes_ghost False r (shared_node_step False r t a) (xs ! j)"
      by simp_all
    from Cons.IH [OF j(2) j(1) j(3)] Suc show ?thesis
      by (simp add: shared_node_step_counters)
  qed
qed

lemma shared_fold_container:
  assumes "distinct xs"
    and "inj_on (\<lambda>a. n_id (node_heap t a)) (set xs \<union> set (domain_shared_nodes t))"
    and "set (domain_shared_nodes t) \<inter> set xs = {}"
  shows "domain_shared_nodes (foldl (shared_node_step h r) t xs) =
           domain_shared_nodes t @
           filter (\<lambda>a. writes_ghost h r t a \<and> r \<in> n_mpi_ranks (node_heap t a)) xs"
  using assms
proof (induction xs arbitrary: t)
  case Nil
  then show ?case by simp
next
  case (Cons a xs)
  let ?t = "shared_node_step h r t a"
  let ?idf = "\<lambda>a. n_id (node_heap t a)"
  let ?D = "domain_shared_nodes t"
  from Cons.prems have a: "a \<notin> set ?D" "a \<notin> set xs" by auto
  have fresh: "?idf a \<notin> ?idf ` set ?D"
  proof
    assume "?idf a \<in> ?idf ` set ?D"
    then obtain b where b: "b \<in> set ?D" "?idf a = ?idf b" by auto
    with Cons.prems(2) have "a = b" by (auto simp: inj_on_def)
    with b a show False by simp
  qed
  have D: "domain_shared_nodes ?t =
      (if writes_ghost h r t a \<and> r \<in> n_mpi_ranks (node_heap t a) then ?D @ [a] else ?D)"
    using fresh by (simp add: shared_node_step_shared Container_add_def)
  have sub: "set (domain_shared_nodes ?t) \<subseteq> insert a (set ?D)"
    by (auto simp: D)
  have 1: "distinct xs" using Cons.prems(1) by simp
  have 2: "inj_on (\<lambda>b. n_id (node_heap ?t b)) (set xs \<union> set (domain_shared_nodes ?t))"
    using Cons.prems(2) sub by (auto simp: inj_on_def)
  have 3: "set (domain_shared_nodes ?t) \<inter> set xs = {}"
    using Cons.prems(3) sub a by auto
  from Cons.IH [OF 1 2 3] show ?case
    by (simp add: D)
qed


lemma halo_start_writes:
  "a \<in> set (nodes m) \<Longrightarrow> writes_ghost False r (halo_start False m) a = is_shared m a"
  by (simp add: writes_ghost_def is_shared_def)

lemma filter_cong_set: "(\<And>x. x \<in> set xs \<Longrightarrow> P x = Q x) \<Longrightarrow> filter P xs = filter Q xs"
  by (rule filter_cong) simp_all

lemma find_default_count:
  "nhalo_nodes (find_domain_shared_nodes False r m) = word_of_nat (ghost_index m (length (nodes m)))"
proof -
  have "filter (writes_ghost False r (halo_start False m)) (nodes m) = filter (is_shared m) (nodes m)"
    by (rule filter_cong_set) (simp add: halo_start_writes)
  then show ?thesis
    by (simp add: find_domain_shared_nodes_start shared_fold_count ghost_index_def)
qed

lemma find_default_ghost:
  assumes "distinct (nodes m)" and "i < length (nodes m)" and "is_shared m (nodes m ! i)"
  shows "n_ghost_id (node_heap (find_domain_shared_nodes False r m) (nodes m ! i)) =
           word_of_nat (ghost_index m i)"
proof -
  let ?t = "halo_start False m"
  have w: "writes_ghost False r ?t (nodes m ! i)"
    using assms by (simp add: halo_start_writes)
  have "filter (writes_ghost False r ?t) (take i (nodes m)) = filter (is_shared m) (take i (nodes m))"
    by (rule filter_cong_set) (auto simp: halo_start_writes dest: in_set_takeD)
  with shared_fold_ghost [OF assms(1,2) w] show ?thesis
    by (simp add: find_domain_shared_nodes_start ghost_index_def)
qed

lemma word_of_nat_one_less:
  "k < 2 ^ 32 \<Longrightarrow> (1 < (word_of_nat k :: 32 word)) = (1 < k)"
  by (simp add: word_less_nat_alt unat_of_nat)

lemma card_touching_ranks: "card (touching_ranks m a) \<le> length (cells m)"
proof -
  have "card (touching_ranks m a)
          \<le> length (filter (\<lambda>c. a \<in> set (c_nodes (cell_heap m c))) (cells m))"
    unfolding touching_ranks_def by (rule order_trans [OF card_length]) simp
  also have "\<dots> \<le> length (cells m)" by (rule length_filter_le)
  finally show ?thesis .
qed

lemma halo_start_writes_any:
  assumes "a \<in> set (nodes m)" and "length (cells m) < 2 ^ 32"
  shows "(writes_ghost h r (halo_start h m) a \<and> r \<in> n_mpi_ranks (node_heap (halo_start h m) a))
           = (is_shared m a \<and> r \<in> touching_ranks m a)"
proof -
  have "card (touching_ranks m a) < 2 ^ 32"
    using card_touching_ranks [of m a] assms(2) by simp
  then show ?thesis
    using assms(1) by (auto simp: writes_ghost_def is_shared_def word_of_nat_one_less)
qed

lemma find_container:
  assumes "distinct (map (\<lambda>a. n_id (node_heap m a)) (nodes m))"
    and "length (cells m) < 2 ^ 32"
  shows "domain_shared_nodes (find_domain_shared_nodes h r m) =
           filter (\<lambda>a. is_shared m a \<and> r \<in> touching_ranks m a) (nodes m)"
proof -
  let ?t = "halo_start h m"
  from assms have d: "distinct (nodes m)" and
    inj: "inj_on (\<lambda>a. n_id (node_heap m a)) (set (nodes m))"
    by (simp_all add: distinct_map)
  have 2: "inj_on (\<lambda>a. n_id (node_heap ?t a)) (set (nodes m) \<union> set (domain_shared_nodes ?t))"
    using inj by simp
  have 3: "set (domain_shared_nodes ?t) \<inter> set (nodes m) = {}" by simp
  have "filter (\<lambda>a. writes_ghost h r ?t a \<and> r \<in> n_mpi_ranks (node_heap ?t a)) (nodes m)
        = filter (\<lambda>a. is_shared m a \<and> r \<in> touching_ranks m a) (nodes m)"
    by (rule filter_cong_set) (rule halo_start_writes_any [OF _ assms(2)])
  with shared_fold_container [OF d 2 3, of h r] show ?thesis
    by (simp add: find_domain_shared_nodes_start)
qed

lemma find_ranks:
  "a \<in> set (nodes m) \<Longrightarrow>
   n_mpi_ranks (node_heap (find_domain_shared_nodes h r m) a) = touching_ranks m a"
  by (simp add: find_domain_shared_nodes_start)

lemma ghost_index_mono: "i \<le> j \<Longrightarrow> ghost_index m i \<le> ghost_index m j"
proof -
  assume "i \<le> j"
  then have "take j (nodes m) = take i (nodes m) @ take (j - i) (drop i (nodes m))"
    by (metis le_add_diff_inverse take_add)
  then show ?thesis by (simp add: ghost_index_def)
qed

lemma ghost_index_less:
  assumes "i < length (nodes m)" and "is_shared m (nodes m ! i)"
  shows "ghost_index m i < ghost_index m (length (nodes m))"
proof -
  have "take (Suc i) (nodes m) = take i (nodes m) @ [nodes m ! i]"
    using assms(1) by (rule take_Suc_conv_app_nth)
  with assms(2) have "ghost_index m (Suc i) = Suc (ghost_index m i)"
    by (simp add: ghost_index_def)
  moreover have "ghost_index m (Suc i) \<le> ghost_index m (length (nodes m))"
    using assms(1) by (intro ghost_index_mono) simp
  ultimately show ?thesis by simp
qed

lemma ghost_index_le: "ghost_index m i \<le> length (nodes m)"
  unfolding ghost_index_def
  by (rule order_trans [OF length_filter_le]) simp


lemma unat_ghost_index:
  "length (nodes m) < 2 ^ 32 \<Longrightarrow> unat (word_of_nat (ghost_index m i) :: 32 word) = ghost_index m i"
  using ghost_index_le [of m i] by (simp add: unat_of_nat)

text \<open>
  C4, as the code has it. For a mesh whose nodes have distinct ids and that has fewer
  than \<open>2^32\<close> nodes and cells, after \<^verbatim>\<open>find_domain_shared_nodes\<close>, in both builds: the
  ranks of every node of the mesh are the ranks of the cells touching it; the node is in
  \<^verbatim>\<open>domain_shared_nodes_\<close> if and only if that set has more than one element and
  contains the local rank; the container holds nodes of the mesh only. In the build
  without \<^verbatim>\<open>USE_HALO_EXCHANGE\<close>, moreover, \<^verbatim>\<open>nhalo_nodes_\<close> is the number of nodes
  touched by more than one rank, and the ghost id of such a node is the number of such
  nodes before it in the container: the ghost ids are \<open>0, 1, \<dots>\<close> in container order,
  each below \<^verbatim>\<open>nhalo_nodes_\<close>, the length of the halo-exchange buffers.
\<close>

theorem find_domain_shared_nodes_result:
  assumes "distinct (map (\<lambda>a. n_id (node_heap m a)) (nodes m))"
    and "length (nodes m) < 2 ^ 32" and "length (cells m) < 2 ^ 32"
  shows "(\<forall>node \<in> set (nodes m).
            n_mpi_ranks (node_heap (find_domain_shared_nodes use_halo_exchange mpi_rank m) node)
              = touching_ranks m node \<and>
            (node \<in> set (domain_shared_nodes
                          (find_domain_shared_nodes use_halo_exchange mpi_rank m)) \<longleftrightarrow>
               1 < card (touching_ranks m node) \<and> mpi_rank \<in> touching_ranks m node)) \<and>
         set (domain_shared_nodes (find_domain_shared_nodes use_halo_exchange mpi_rank m))
           \<subseteq> set (nodes m) \<and>
         unat (nhalo_nodes (find_domain_shared_nodes False mpi_rank m))
           = ghost_index m (length (nodes m)) \<and>
         (\<forall>i < length (nodes m). is_shared m (nodes m ! i) \<longrightarrow>
            unat (n_ghost_id (node_heap (find_domain_shared_nodes False mpi_rank m) (nodes m ! i)))
              = ghost_index m i \<and>
            ghost_index m i < unat (nhalo_nodes (find_domain_shared_nodes False mpi_rank m)))"
proof -
  let ?g = "find_domain_shared_nodes use_halo_exchange mpi_rank m"
  let ?f = "find_domain_shared_nodes False mpi_rank m"
  from assms(1) have d: "distinct (nodes m)" by (simp add: distinct_map)
  have D: "domain_shared_nodes ?g =
      filter (\<lambda>a. is_shared m a \<and> mpi_rank \<in> touching_ranks m a) (nodes m)"
    using assms(1,3) by (rule find_container)
  have n: "unat (nhalo_nodes ?f) = ghost_index m (length (nodes m))"
    using assms(2) by (simp add: find_default_count unat_ghost_index)
  have 1: "\<forall>node \<in> set (nodes m).
            n_mpi_ranks (node_heap ?g node) = touching_ranks m node \<and>
            (node \<in> set (domain_shared_nodes ?g) \<longleftrightarrow>
               1 < card (touching_ranks m node) \<and> mpi_rank \<in> touching_ranks m node)"
    by (simp add: find_ranks D is_shared_def)
  have 2: "set (domain_shared_nodes ?g) \<subseteq> set (nodes m)"
    by (auto simp: D)
  have 3: "\<forall>i < length (nodes m). is_shared m (nodes m ! i) \<longrightarrow>
            unat (n_ghost_id (node_heap ?f (nodes m ! i))) = ghost_index m i \<and>
            ghost_index m i < unat (nhalo_nodes ?f)"
    using assms(2) d
    by (auto simp: find_default_ghost unat_ghost_index n ghost_index_less)
  from 1 2 n 3 show ?thesis by blast
qed

theorem find_domain_shared_nodes_result_witness:
  "n_mpi_ranks (node_heap (find_domain_shared_nodes False 0 chain_mesh) 1) = {0, 1} \<and>
   1 \<in> set (domain_shared_nodes (find_domain_shared_nodes False 0 chain_mesh)) \<and>
   2 \<notin> set (domain_shared_nodes (find_domain_shared_nodes False 0 chain_mesh)) \<and>
   unat (nhalo_nodes (find_domain_shared_nodes False 0 chain_mesh)) = 2 \<and>
   unat (n_ghost_id (node_heap (find_domain_shared_nodes False 0 chain_mesh) 1)) = 0 \<and>
   unat (n_ghost_id (node_heap (find_domain_shared_nodes False 0 chain_mesh) 2)) = 1"
proof -
  have h1: "distinct (map (\<lambda>a. n_id (node_heap chain_mesh a)) (nodes chain_mesh))"
    by (simp add: chain_defs)
  have h2: "length (nodes chain_mesh) < 2 ^ 32"
    by (simp add: chain_defs)
  have h3: "length (cells chain_mesh) < 2 ^ 32"
    by (simp add: chain_defs)
  have nd: "nodes chain_mesh = [0, 1, 2, 3]" by (simp add: chain_defs)
  have tr: "touching_ranks chain_mesh 0 = {0}" "touching_ranks chain_mesh 1 = {0, 1}"
    "touching_ranks chain_mesh 2 = {1, 2}" "touching_ranks chain_mesh 3 = {2}"
    by (auto simp: touching_ranks_def chain_defs)
  have sh: "\<not> is_shared chain_mesh 0" "is_shared chain_mesh 1" "is_shared chain_mesh 2"
    "\<not> is_shared chain_mesh 3"
    unfolding is_shared_def tr by simp_all
  have sh1: "is_shared chain_mesh (Suc 0)" using sh(2) by simp
  have tr1: "touching_ranks chain_mesh (Suc 0) = {0, Suc 0}" using tr(2) by simp
  have tk: "take (Suc 0) [0, 1, 2, 3 :: nat] = [0]" "take 2 [0, 1, 2, 3 :: nat] = [0, 1]"
    "take 4 [0, 1, 2, 3 :: nat] = [0, 1, 2, 3]"
    by simp_all
  have gi: "ghost_index chain_mesh (Suc 0) = 0" "ghost_index chain_mesh 2 = Suc 0"
    "ghost_index chain_mesh 4 = 2"
    unfolding ghost_index_def nd tk by (simp_all add: sh sh1)
  note t = find_domain_shared_nodes_result [OF h1 h2 h3, of False 0]
  from t have a: "\<forall>node \<in> set (nodes chain_mesh).
            n_mpi_ranks (node_heap (find_domain_shared_nodes False 0 chain_mesh) node)
              = touching_ranks chain_mesh node \<and>
            (node \<in> set (domain_shared_nodes (find_domain_shared_nodes False 0 chain_mesh)) \<longleftrightarrow>
               1 < card (touching_ranks chain_mesh node) \<and> 0 \<in> touching_ranks chain_mesh node)"
    by blast
  from t have b: "unat (nhalo_nodes (find_domain_shared_nodes False 0 chain_mesh))
           = ghost_index chain_mesh (length (nodes chain_mesh))"
    by blast
  from t have c: "\<forall>i < length (nodes chain_mesh). is_shared chain_mesh (nodes chain_mesh ! i) \<longrightarrow>
            unat (n_ghost_id (node_heap (find_domain_shared_nodes False 0 chain_mesh) (nodes chain_mesh ! i)))
              = ghost_index chain_mesh i"
    by blast
  have len: "length (nodes chain_mesh) = 4" by (simp add: nd)
  from b have b4: "unat (nhalo_nodes (find_domain_shared_nodes False 0 chain_mesh)) = 2"
    unfolding len gi .
  from c [rule_format, of 1] c [rule_format, of 2] a b4 show ?thesis
    by (simp add: nd tr tr1 sh sh1 gi)
qed

text \<open>
  C4 as stated covers both builds. With \<^verbatim>\<open>USE_HALO_EXCHANGE\<close> a ghost id is written
  only for a shared node that the local rank touches, and it is the running number of
  communications. On rank 0 of the three-rank example, node 2 is touched by the ranks 1
  and 2, keeps the ghost id 7 it had, and \<^verbatim>\<open>nhalo_nodes_\<close> stays 0.
\<close>

theorem find_domain_shared_nodes_halo_build_ghost_id:
  "2 \<in> set (nodes chain_mesh) \<and> touching_ranks chain_mesh 2 = {1, 2} \<and>
   n_ghost_id (node_heap chain_mesh 2) = 7 \<and>
   n_ghost_id (node_heap (find_domain_shared_nodes True 0 chain_mesh) 2) = 7 \<and>
   nhalo_nodes (find_domain_shared_nodes True 0 chain_mesh) = 0"
proof -
  have tr: "touching_ranks chain_mesh 0 = {0}" "touching_ranks chain_mesh 1 = {0, 1}"
    "touching_ranks chain_mesh 2 = {1, 2}" "touching_ranks chain_mesh 3 = {2}"
    by (auto simp: touching_ranks_def chain_defs)
  have nd: "nodes chain_mesh = [0, 1, 2, 3]" by (simp add: chain_defs)
  have g: "n_ghost_id (node_heap chain_mesh 2) = 7" by (simp add: chain_defs)
  have c: "nhalo_nodes chain_mesh = 0" by (simp add: chain_defs)
  show ?thesis
    by (simp add: find_domain_shared_nodes_start nd tr g c shared_node_step_ghost
          shared_node_step_counters writes_ghost_def)
qed

subsection \<open>Export and import of the particles\<close>


lemma initialise_particle_fields [simp]:
  "materials (initialise_particle s a r mat) = materials s"
  "particles (mesh (initialise_particle s a r mat)) = particles (mesh s)"
  "b \<noteq> a \<Longrightarrow> particle_state (initialise_particle s a r mat) b = particle_state s b"
  "b \<noteq> a \<Longrightarrow> particle_heap (mesh (initialise_particle s a r mat)) b = particle_heap (mesh s) b"
  "ps_velocity (particle_state (initialise_particle s a r mat) a) = h_velocity r"
  "ps_mass (particle_state (initialise_particle s a r mat) a) = h_mass r"
  "ps_stress (particle_state (initialise_particle s a r mat) a) = h_stress r"
  "ps_strain (particle_state (initialise_particle s a r mat) a) = h_strain r"
  "ps_material_id (particle_state (initialise_particle s a r mat) a) = h_material_id r"
  "ps_state_variables (particle_state (initialise_particle s a r mat) a)
     = take (unat (h_nstate_vars r)) (h_svars r)"
  "p_id (particle_heap (mesh (initialise_particle s a r mat)) a) = h_id r"
  "p_coordinates (particle_heap (mesh (initialise_particle s a r mat)) a) = h_coordinates r"
  by (simp_all add: initialise_particle_def Particle_update_def)






subsection \<open>Nodal halo exchange\<close>










lemma delivered_Nil [simp]: "delivered mb [] = mb"
  by (simp add: delivered_def)




lemma length_rank_messages [simp]:
  "length (rank_messages r tag v rs) = length (filter (\<lambda>q. q \<noteq> r) rs)"
  by (simp add: rank_messages_def)
























lemma finite_touching_ranks [simp]: "finite (touching_ranks m a)"
  by (simp add: touching_ranks_def)





end
